theory Spec2Isabelle
  imports Main "HOL-Library.Sublist"
begin

section \<open>Strings\<close>

text \<open>
  Python \<open>str\<close> values are modelled as \<open>string\<close> (lists of characters). The model covers
  ASCII text: \<open>lower\<close> maps the letters A-Z, and the whitespace removed by \<open>strip\<close> is
  the ASCII whitespace of \<open>str.isspace\<close> (tab, line feed, vertical tab, form feed, carriage
  return, the separators 0x1C-0x1F and the space).
\<close>

definition lower_char :: "char \<Rightarrow> char" where
  "lower_char c =
     (case map_of (zip ''ABCDEFGHIJKLMNOPQRSTUVWXYZ'' ''abcdefghijklmnopqrstuvwxyz'') c of
        Some d \<Rightarrow> d
      | None \<Rightarrow> c)"

definition lower :: "string \<Rightarrow> string" where
  "lower s = map lower_char s"

definition is_space :: "char \<Rightarrow> bool" where
  "is_space c \<longleftrightarrow>
     c \<in> set [CHR '' '', CHR 0x09, CHR 0x0A, CHR 0x0B, CHR 0x0C, CHR 0x0D,
               CHR 0x1C, CHR 0x1D, CHR 0x1E, CHR 0x1F]"

text \<open>\<open>s.lstrip(chars)\<close>, \<open>s.rstrip(chars)\<close>: remove every leading (trailing) character that
  belongs to the character set \<open>chars\<close>.\<close>

definition lstrip_chars :: "string \<Rightarrow> string \<Rightarrow> string" where
  "lstrip_chars chars s = dropWhile (\<lambda>c. c \<in> set chars) s"

definition rstrip_chars :: "string \<Rightarrow> string \<Rightarrow> string" where
  "rstrip_chars chars s = rev (dropWhile (\<lambda>c. c \<in> set chars) (rev s))"

text \<open>\<open>s.strip()\<close> without argument removes leading and trailing whitespace.\<close>

definition strip :: "string \<Rightarrow> string" where
  "strip s = rev (dropWhile is_space (rev (dropWhile is_space s)))"

text \<open>\<open>s.replace(old, new)\<close>: the non-overlapping occurrences of \<open>old\<close>, found from left to
  right, are replaced. For an empty \<open>old\<close> Python inserts \<open>new\<close> before every character and at
  the end.\<close>

function replace_scan :: "string \<Rightarrow> string \<Rightarrow> string \<Rightarrow> string" where
  "replace_scan old new [] = []"
| "replace_scan old new (c # cs) =
     (if old \<noteq> [] \<and> prefix old (c # cs)
      then new @ replace_scan old new (drop (length old) (c # cs))
      else c # replace_scan old new cs)"
  by pat_completeness auto
termination
  by (relation "measure (\<lambda>(old, new, s). length s)") (auto simp: Suc_diff_le)

definition replace :: "string \<Rightarrow> string \<Rightarrow> string \<Rightarrow> string" where
  "replace old new s =
     (if old = [] then new @ concat (map (\<lambda>c. c # new) s) else replace_scan old new s)"

section \<open>Rows, templates and overrides\<close>

text \<open>
  A row is a Python \<open>dict\<close> from column name to cell text, kept as an association list in
  insertion order (the order in which \<open>row.keys()\<close> iterates). \<open>row.get(k, "")\<close> is
  \<open>row_get\<close>.
\<close>

type_synonym row = "(string \<times> string) list"

definition row_get :: "row \<Rightarrow> string \<Rightarrow> string" where
  "row_get r k = (case map_of r k of Some v \<Rightarrow> v | None \<Rightarrow> [])"

text \<open>A template dictionary \<open>{id, name, text, manual_only}\<close>.\<close>

record template =
  tmpl_id :: string
  tmpl_name :: string
  tmpl_text :: string
  manual_only :: bool

type_synonym overrides = "string \<rightharpoonup> string"

type_synonym firm_counts = "string \<rightharpoonup> int"

type_synonym parse_name_fn = "string \<Rightarrow> string \<times> string"

section \<open>engine/resolver.py: PlaceholderResolver\<close>

record resolver =
  headers :: "string list"
  row :: row
  parse_name :: parse_name_fn
  full_name_header :: "string option"
  company_header :: "string option"
  school_header :: "string option"
  email_header :: "string option"
  derived :: "string \<rightharpoonup> string"

text \<open>Python truthiness of an optional header: \<open>None\<close> and the empty string are false.\<close>

definition truthy :: "string option \<Rightarrow> bool" where
  "truthy h = (case h of None \<Rightarrow> False | Some s \<Rightarrow> s \<noteq> [])"

definition first_exact_header :: "string list \<Rightarrow> string list \<Rightarrow> string option" where
  "first_exact_header hs candidates = find (\<lambda>h. h \<in> set candidates) hs"

definition first_contains_header ::
  "string list \<Rightarrow> string list \<Rightarrow> string list \<Rightarrow> string option" where
  "first_contains_header hs substrings exclude_substrings =
     find (\<lambda>h. let hl = lower h in
                 (\<exists>sub \<in> set substrings. sublist sub hl) \<and>
                 \<not> (exclude_substrings \<noteq> [] \<and> (\<exists>ex \<in> set exclude_substrings. sublist ex hl)))
          hs"

definition COMPANY_OR_FIRM_SUBSTRS :: "string list" where
  "COMPANY_OR_FIRM_SUBSTRS = [''company'', ''firm'']"

definition SCHOOL_SUBSTRS :: "string list" where
  "SCHOOL_SUBSTRS = [''school'', ''college'', ''university'', ''uni'']"

definition EMAIL_SUBSTR :: string where
  "EMAIL_SUBSTR = ''email''"

text \<open>\<open>_build_derived_defaults\<close>, given the headers chosen by the constructor.\<close>

definition build_derived_defaults ::
  "string list \<Rightarrow> row \<Rightarrow> parse_name_fn \<Rightarrow> string option \<Rightarrow> string option \<Rightarrow> string option
     \<Rightarrow> (string \<rightharpoonup> string)" where
  "build_derived_defaults hs r pn fnh ch sh =
     (let full_name_val0 = (if truthy fnh then strip (row_get r (the fnh)) else []);
          (first0, last0) = pn full_name_val0;
          firm_val = (if truthy ch then strip (row_get r (the ch)) else []);
          school_val = (if truthy sh then strip (row_get r (the sh)) else []);
          fallback = strip (row_get r ''name'');
          use_fallback = (full_name_val0 = [] \<and> ''name'' \<in> set hs \<and> fallback \<noteq> []);
          full_name_val = (if use_fallback then fallback else full_name_val0);
          (first, last) =
             (if use_fallback \<and> first0 = [] \<and> last0 = [] then pn fallback else (first0, last0));
          d = [''first name'' \<mapsto> first, ''last name'' \<mapsto> last, ''full name'' \<mapsto> full_name_val,
               ''firm'' \<mapsto> firm_val, ''firm name'' \<mapsto> firm_val, ''school'' \<mapsto> school_val];
          prefix_header = find (\<lambda>h. h = ''prefix'') hs
      in if truthy prefix_header then
           (let prefix_val = strip (row_get r (the prefix_header)) in
            if prefix_val \<noteq> [] then
              (if last \<noteq> [] then d(''first name'' \<mapsto> prefix_val @ ''. '' @ last)
               else d(''first name'' \<mapsto> prefix_val @ ''.''))
            else (if first \<noteq> [] then d(''first name'' \<mapsto> first) else d))
         else (if first \<noteq> [] then d(''first name'' \<mapsto> first) else d))"

text \<open>The constructor \<open>PlaceholderResolver(headers, row, parse_name_fn)\<close>.\<close>

definition PlaceholderResolver :: "string list \<Rightarrow> row \<Rightarrow> parse_name_fn \<Rightarrow> resolver" where
  "PlaceholderResolver hs r pn =
     (let fnh = first_exact_header hs [''full name'', ''name''];
          ch0 = first_exact_header hs
                  [''firm'', ''company'', ''firm name'', ''company name'', ''business''];
          ch = (if \<not> truthy ch0
                then first_contains_header hs COMPANY_OR_FIRM_SUBSTRS [''email'']
                else ch0);
          sh = first_contains_header hs SCHOOL_SUBSTRS [];
          eh = first_contains_header hs [EMAIL_SUBSTR] []
      in \<lparr> headers = hs, row = r, parse_name = pn,
           full_name_header = fnh, company_header = ch, school_header = sh, email_header = eh,
           derived = build_derived_defaults hs r pn fnh ch sh \<rparr>)"

subsection \<open>Placeholder resolution\<close>

definition resolve_token :: "resolver \<Rightarrow> string \<Rightarrow> string" where
  "resolve_token rs token_text =
     (let key = lower (strip token_text) in
      case derived rs key of
        Some v \<Rightarrow> v
      | None \<Rightarrow>
          (case find (\<lambda>h. h = key) (headers rs) of
             Some h \<Rightarrow> strip (row_get (row rs) h)
           | None \<Rightarrow> []))"

text \<open>
  The regular expression \<open>\{([^{}]+)\}\<close>: an opening brace, a non-empty run of characters
  other than braces, a closing brace. \<open>match_token cs\<close> matches the part after the opening
  brace and returns the token and the text after the closing brace.
\<close>

definition not_brace :: "char \<Rightarrow> bool" where
  "not_brace c \<longleftrightarrow> c \<noteq> CHR ''{'' \<and> c \<noteq> CHR ''}''"

definition match_token :: "string \<Rightarrow> (string \<times> string) option" where
  "match_token cs =
     (let tok = takeWhile not_brace cs in
      case dropWhile not_brace cs of
        [] \<Rightarrow> None
      | d # rest \<Rightarrow> if tok \<noteq> [] \<and> d = CHR ''}'' then Some (tok, rest) else None)"

text \<open>\<open>pattern.sub(_sub, text)\<close>: the leftmost non-overlapping matches are replaced by the
  value of the callback on the token; every other character is copied.\<close>

function re_sub :: "(string \<Rightarrow> string) \<Rightarrow> string \<Rightarrow> string" where
  "re_sub f [] = []"
| "re_sub f (c # cs) =
     (if c = CHR ''{''
      then (case match_token cs of
              Some (tok, rest) \<Rightarrow> f tok @ re_sub f rest
            | None \<Rightarrow> c # re_sub f cs)
      else c # re_sub f cs)"
  by pat_completeness auto
termination
proof (relation "measure (\<lambda>(f, s). length s)")
  show "wf (measure (\<lambda>(f, s). length s))"
    by simp
next
  fix f :: "string \<Rightarrow> string" and c :: char and cs x2 tok rest :: string
    and x :: "string \<times> string"
  assume "match_token cs = Some x" and "(tok, rest) = x"
  then obtain d where "dropWhile not_brace cs = d # rest"
    by (auto simp: match_token_def Let_def split: list.splits if_splits)
  then have "length (dropWhile not_brace cs) = Suc (length rest)"
    by simp
  moreover have "length (dropWhile not_brace cs) \<le> length cs"
    by (rule length_dropWhile_le)
  ultimately show "((f, rest), (f, c # cs)) \<in> measure (\<lambda>(f, s). length s)"
    by simp
qed simp_all

definition resolve_text :: "resolver \<Rightarrow> string \<Rightarrow> string" where
  "resolve_text rs text =
     (if text = [] \<or> CHR ''{'' \<notin> set text then text
      else re_sub (resolve_token rs) text)"

subsection \<open>Convenience getters\<close>

definition get_email :: "resolver \<Rightarrow> string" where
  "get_email rs =
     (if truthy (email_header rs) then strip (row_get (row rs) (the (email_header rs)))
      else strip (row_get (row rs) ''email''))"

definition get_firm :: "resolver \<Rightarrow> string" where
  "get_firm rs = (case derived rs ''firm'' of Some v \<Rightarrow> v | None \<Rightarrow> [])"

definition get_first_last :: "resolver \<Rightarrow> string \<times> string" where
  "get_first_last rs =
     ((case derived rs ''first name'' of Some v \<Rightarrow> v | None \<Rightarrow> []),
      (case derived rs ''last name'' of Some v \<Rightarrow> v | None \<Rightarrow> []))"

definition get_full_name :: "resolver \<Rightarrow> string" where
  "get_full_name rs = (case derived rs ''full name'' of Some v \<Rightarrow> v | None \<Rightarrow> [])"

section \<open>engine/preview.py\<close>

definition template_by_id :: "template list \<Rightarrow> string \<Rightarrow> template option" where
  "template_by_id templates tid = find (\<lambda>t. tmpl_id t = tid) templates"

definition rotatable_templates :: "template list \<Rightarrow> template list" where
  "rotatable_templates templates = filter (\<lambda>t. \<not> manual_only t) templates"

text \<open>
  \<open>choose_template_for_row\<close> mutates the dictionary \<open>firm_counts\<close> of its caller; the model
  returns the dictionary after the call next to the result \<open>(template or None, is_manual)\<close>.
\<close>

definition choose_template_for_row ::
  "row \<Rightarrow> string list \<Rightarrow> template list \<Rightarrow> overrides \<Rightarrow> firm_counts \<Rightarrow> parse_name_fn
     \<Rightarrow> (template option \<times> bool) \<times> firm_counts" where
  "choose_template_for_row r headers_lower templates recipient_template_overrides fc pn =
     (let rs = PlaceholderResolver headers_lower r pn;
          email = strip (lower (get_email rs));
          firm = get_firm rs;
          manual =
            (if email \<noteq> [] \<and> email \<in> dom recipient_template_overrides
             then template_by_id templates (the (recipient_template_overrides email))
             else None)
      in case manual of
           Some t \<Rightarrow> ((Some t, True), fc)
         | None \<Rightarrow>
             (let rot = rotatable_templates templates in
              if rot = [] then ((None, False), fc)
              else
                (let firm_key = firm;
                     fc' = fc(firm_key \<mapsto> (case fc firm_key of Some n \<Rightarrow> n | None \<Rightarrow> 0) + 1);
                     idx = (the (fc' firm_key) - 1) mod int (length rot)
                 in ((Some (rot ! nat idx), False), fc'))))"

record preview_entry =
  name :: string
  email :: string
  email_norm :: string
  firm :: string
  template_name :: string
  template_id :: "string option"
  is_manual :: bool
  is_eligible :: bool

text \<open>The placeholder shown when no template is chosen: an en dash (U+2013, in UTF-8).\<close>

definition no_template_name :: string where
  "no_template_name = [CHR 0xE2, CHR 0x80, CHR 0x93]"

text \<open>
  The body of the loop of \<open>build_preview_rows\<close> over the rows, with the counters
  \<open>firm_counts\<close> as explicit state: the result is the list of entries appended to \<open>out\<close>
  and the counters after the last row.
\<close>

fun preview_loop ::
  "string list \<Rightarrow> template list \<Rightarrow> overrides \<Rightarrow> parse_name_fn \<Rightarrow> bool
     \<Rightarrow> (row \<Rightarrow> bool) \<Rightarrow> (string \<Rightarrow> bool) \<Rightarrow> row list \<Rightarrow> firm_counts
     \<Rightarrow> preview_entry list \<times> firm_counts" where
  "preview_loop hs ts ov pn only_recipients gen_fn valid_fn [] fc = ([], fc)"
| "preview_loop hs ts ov pn only_recipients gen_fn valid_fn (r # rows) fc =
     (let rs = PlaceholderResolver hs r pn;
          email_display = get_email rs;
          email_norm = strip (lower email_display);
          eligible = (gen_fn r \<and> valid_fn email_display)
      in if only_recipients \<and> \<not> eligible
         then preview_loop hs ts ov pn only_recipients gen_fn valid_fn rows fc
         else
           (let firm = get_firm rs;
                (first, last) = get_first_last rs;
                full_name = get_full_name rs;
                prefix_val = strip (row_get r ''prefix'');
                name_display =
                  (if prefix_val \<noteq> [] then first @ '' ('' @ full_name @ '')''
                   else strip (first @ (if last \<noteq> [] then '' '' @ last else [])));
                ((chosen, is_manual), fc') =
                  (if eligible then choose_template_for_row r hs ts ov fc pn
                   else ((None, False), fc));
                entry =
                  (case chosen of
                     Some t \<Rightarrow>
                       \<lparr> name = name_display, email = email_display, email_norm = email_norm,
                         firm = firm, template_name = tmpl_name t, template_id = Some (tmpl_id t),
                         is_manual = is_manual, is_eligible = eligible \<rparr>
                   | None \<Rightarrow>
                       \<lparr> name = name_display, email = email_display, email_norm = email_norm,
                         firm = firm, template_name = no_template_name, template_id = None,
                         is_manual = False, is_eligible = eligible \<rparr>);
                (out, fc'') = preview_loop hs ts ov pn only_recipients gen_fn valid_fn rows fc'
            in (entry # out, fc'')))"

text \<open>\<open>build_preview_rows\<close> creates the counters (\<open>firm_counts = {}\<close>), runs the loop and
  returns the entries; the counters are local and dropped.\<close>

definition build_preview_rows ::
  "row list \<Rightarrow> string list \<Rightarrow> template list \<Rightarrow> overrides \<Rightarrow> parse_name_fn \<Rightarrow> bool
     \<Rightarrow> (row \<Rightarrow> bool) \<Rightarrow> (string \<Rightarrow> bool) \<Rightarrow> preview_entry list" where
  "build_preview_rows rows hs ts ov pn only_recipients gen_fn valid_fn =
     fst (preview_loop hs ts ov pn only_recipients gen_fn valid_fn rows Map.empty)"

section \<open>engine/generator.py\<close>

definition wrap_in_html :: "string \<Rightarrow> string" where
  "wrap_in_html text0 =
     (let text = strip text0;
          html_content = strip (replace [CHR 0x0A] ''<br>'' (replace ''  '' ''<br><br>'' text));
          html_content = rstrip_chars ''<br>'' (lstrip_chars ''<br>'' html_content)
      in strip (''<html><body style='' @ [CHR 0x27] @ ''margin:0;padding:0;font-family:Arial,sans-serif;''
                @ [CHR 0x27] @ ''>'' @ html_content @ ''</body></html>''))"

text \<open>\<open>_build_rows_by_email\<close>: a later row with the same normalised address replaces an
  earlier one.\<close>

definition build_rows_by_email :: "row list \<Rightarrow> string list \<Rightarrow> parse_name_fn \<Rightarrow> (string \<rightharpoonup> row)" where
  "build_rows_by_email rows hs pn =
     fold (\<lambda>r result.
             let email = strip (lower (get_email (PlaceholderResolver hs r pn)))
             in if email \<noteq> [] then result(email \<mapsto> r) else result)
          rows Map.empty"

text \<open>The dictionary comprehension \<open>{t["id"]: t for t in templates}\<close>.\<close>

definition templates_by_id :: "template list \<Rightarrow> (string \<rightharpoonup> template)" where
  "templates_by_id templates = fold (\<lambda>t m. m(tmpl_id t \<mapsto> t)) templates Map.empty"

text \<open>
  The keyword arguments of one call of \<open>_create_outlook_draft\<close>. The mail client is outside
  the program: \<open>sink d\<close> tells whether the call for the draft \<open>d\<close> returns (\<open>True\<close>) or
  raises. An exception of the sink leaves \<open>generate_emails\<close> through no handler.
\<close>

record draft =
  to :: string
  subject :: string
  body :: string
  resume_path :: "string option"

datatype gen_error = SinkFailed draft

text \<open>The loop of \<open>generate_emails\<close> over the preview entries; the state is the counter
  \<open>count\<close> and the drafts handed to the sink so far.\<close>

fun generate_loop ::
  "string list \<Rightarrow> parse_name_fn \<Rightarrow> (string \<rightharpoonup> row) \<Rightarrow> (string \<rightharpoonup> template) \<Rightarrow> string
     \<Rightarrow> string option \<Rightarrow> bool \<Rightarrow> (draft \<Rightarrow> bool) \<Rightarrow> preview_entry list \<Rightarrow> int \<Rightarrow> draft list
     \<Rightarrow> gen_error + (int \<times> draft list)" where
  "generate_loop hs pn rows_by_email tpls subject_template resume dry_run sink [] count created =
     Inr (count, created)"
| "generate_loop hs pn rows_by_email tpls subject_template resume dry_run sink (p # ps) count created =
     (let email_display = email p;
          email_norm = (if email_norm p \<noteq> [] then email_norm p else strip (lower email_display));
          tid = template_id p
      in if email_norm = [] \<or> \<not> truthy tid
         then generate_loop hs pn rows_by_email tpls subject_template resume dry_run sink ps count created
         else
           (case rows_by_email email_norm of
              None \<Rightarrow>
                generate_loop hs pn rows_by_email tpls subject_template resume dry_run sink ps count created
            | Some r \<Rightarrow>
                if r = []
                then generate_loop hs pn rows_by_email tpls subject_template resume dry_run sink ps
                       count created
                else
                  (case tpls (the tid) of
                     None \<Rightarrow>
                       generate_loop hs pn rows_by_email tpls subject_template resume dry_run sink ps
                         count created
                   | Some tpl \<Rightarrow>
                       (let rs = PlaceholderResolver hs r pn;
                            subject = resolve_text rs subject_template;
                            body_plain = resolve_text rs (tmpl_text tpl);
                            body = wrap_in_html body_plain
                        in if dry_run
                           then generate_loop hs pn rows_by_email tpls subject_template resume
                                  dry_run sink ps (count + 1) created
                           else
                             (let d = \<lparr> to = (if email_display \<noteq> [] then email_display
                                                else email_norm),
                                        subject = subject, body = body, resume_path = resume \<rparr>
                              in if sink d
                                 then generate_loop hs pn rows_by_email tpls subject_template resume
                                        dry_run sink ps (count + 1) (created @ [d])
                                 else Inl (SinkFailed d))))))"

text \<open>
  \<open>generate_emails\<close> returns the counter; the model returns next to it the drafts the sink
  received, in order.
\<close>

definition generate_emails ::
  "row list \<Rightarrow> string list \<Rightarrow> template list \<Rightarrow> overrides \<Rightarrow> parse_name_fn
     \<Rightarrow> (row \<Rightarrow> bool) \<Rightarrow> (string \<Rightarrow> bool) \<Rightarrow> string \<Rightarrow> string option \<Rightarrow> bool
     \<Rightarrow> (draft \<Rightarrow> bool) \<Rightarrow> gen_error + (int \<times> draft list)" where
  "generate_emails rows hs ts ov pn gen_fn valid_fn subject_template resume dry_run sink =
     (let preview_rows = build_preview_rows rows hs ts ov pn True gen_fn valid_fn;
          rows_by_email = build_rows_by_email rows hs pn
      in generate_loop hs pn rows_by_email (templates_by_id ts) subject_template resume dry_run
           sink preview_rows 0 [])"

section \<open>engine/__main__.py: the eligibility predicate of the command line\<close>

definition parse_bool :: "string \<Rightarrow> bool" where
  "parse_bool val \<longleftrightarrow> lower (strip val) \<in> {''1'', ''true'', ''yes'', ''y''}"

text \<open>The dictionary comprehension \<open>{k.lower(): k for k in row.keys()}\<close>: for keys equal up
  to case the last one stays.\<close>

definition lower_keys :: "row \<Rightarrow> (string \<rightharpoonup> string)" where
  "lower_keys r = fold (\<lambda>k m. m(lower k \<mapsto> k)) (map fst r) Map.empty"

text \<open>\<open>row[real_key]\<close> for a key taken from the row itself.\<close>

definition is_generate_true :: "row \<Rightarrow> bool" where
  "is_generate_true r =
     (let lk = lower_keys r in
      case lk ''generate'' of
        Some real_key \<Rightarrow> parse_bool (row_get r real_key)
      | None \<Rightarrow>
          (case lk ''gen'' of
             Some real_key \<Rightarrow> parse_bool (row_get r real_key)
           | None \<Rightarrow> True))"

section \<open>engine/preview.py with the counters as a heap object\<close>

text \<open>
  In the program \<open>firm_counts\<close> is a dictionary object: \<open>build_preview_rows\<close> creates it
  (\<open>firm_counts = {}\<close>) and passes a reference to \<open>choose_template_for_row\<close>, which
  updates it in place. The functions above thread the dictionary as a value. Here the same
  three functions, and the call of \<open>build_preview_rows\<close> inside \<open>generate_emails\<close>, are
  written once more with the dictionaries of the process on a heap: \<open>cells h a\<close> is the
  dictionary at the address \<open>a\<close>, \<open>next_addr h\<close> the next free address. A reference is an
  address; creating a dictionary takes the next free address.
\<close>

record heap =
  cells :: "nat \<Rightarrow> firm_counts"
  next_addr :: nat

text \<open>\<open>choose_template_for_row\<close>, with \<open>firm_counts\<close> a reference.\<close>

definition choose_template_for_row_at ::
  "row \<Rightarrow> string list \<Rightarrow> template list \<Rightarrow> overrides \<Rightarrow> nat \<Rightarrow> parse_name_fn \<Rightarrow> heap
     \<Rightarrow> (template option \<times> bool) \<times> heap" where
  "choose_template_for_row_at r headers_lower templates recipient_template_overrides firm_counts pn h =
     (let rs = PlaceholderResolver headers_lower r pn;
          email = strip (lower (get_email rs));
          firm = get_firm rs;
          manual =
            (if email \<noteq> [] \<and> email \<in> dom recipient_template_overrides
             then template_by_id templates (the (recipient_template_overrides email))
             else None)
      in case manual of
           Some t \<Rightarrow> ((Some t, True), h)
         | None \<Rightarrow>
             (let rot = rotatable_templates templates in
              if rot = [] then ((None, False), h)
              else
                (let firm_key = firm;
                     d = cells h firm_counts;
                     h' = h\<lparr>cells := (cells h)
                            (firm_counts := d(firm_key \<mapsto> (case d firm_key of Some n \<Rightarrow> n | None \<Rightarrow> 0) + 1))\<rparr>;
                     idx = (the (cells h' firm_counts firm_key) - 1) mod int (length rot)
                 in ((Some (rot ! nat idx), False), h'))))"

text \<open>The loop of \<open>build_preview_rows\<close>.\<close>

fun preview_loop_at ::
  "string list \<Rightarrow> template list \<Rightarrow> overrides \<Rightarrow> parse_name_fn \<Rightarrow> bool
     \<Rightarrow> (row \<Rightarrow> bool) \<Rightarrow> (string \<Rightarrow> bool) \<Rightarrow> row list \<Rightarrow> nat \<Rightarrow> heap
     \<Rightarrow> preview_entry list \<times> heap" where
  "preview_loop_at hs ts ov pn only_recipients gen_fn valid_fn [] firm_counts h = ([], h)"
| "preview_loop_at hs ts ov pn only_recipients gen_fn valid_fn (r # rows) firm_counts h =
     (let rs = PlaceholderResolver hs r pn;
          email_display = get_email rs;
          email_norm = strip (lower email_display);
          eligible = (gen_fn r \<and> valid_fn email_display)
      in if only_recipients \<and> \<not> eligible
         then preview_loop_at hs ts ov pn only_recipients gen_fn valid_fn rows firm_counts h
         else
           (let firm = get_firm rs;
                (first, last) = get_first_last rs;
                full_name = get_full_name rs;
                prefix_val = strip (row_get r ''prefix'');
                name_display =
                  (if prefix_val \<noteq> [] then first @ '' ('' @ full_name @ '')''
                   else strip (first @ (if last \<noteq> [] then '' '' @ last else [])));
                ((chosen, is_manual), h') =
                  (if eligible then choose_template_for_row_at r hs ts ov firm_counts pn h
                   else ((None, False), h));
                entry =
                  (case chosen of
                     Some t \<Rightarrow>
                       \<lparr> name = name_display, email = email_display, email_norm = email_norm,
                         firm = firm, template_name = tmpl_name t, template_id = Some (tmpl_id t),
                         is_manual = is_manual, is_eligible = eligible \<rparr>
                   | None \<Rightarrow>
                       \<lparr> name = name_display, email = email_display, email_norm = email_norm,
                         firm = firm, template_name = no_template_name, template_id = None,
                         is_manual = False, is_eligible = eligible \<rparr>);
                (out, h'') = preview_loop_at hs ts ov pn only_recipients gen_fn valid_fn rows
                               firm_counts h'
            in (entry # out, h'')))"

text \<open>\<open>build_preview_rows\<close>: the new dictionary is empty and lives at a fresh address.\<close>

definition build_preview_rows_at ::
  "heap \<Rightarrow> row list \<Rightarrow> string list \<Rightarrow> template list \<Rightarrow> overrides \<Rightarrow> parse_name_fn \<Rightarrow> bool
     \<Rightarrow> (row \<Rightarrow> bool) \<Rightarrow> (string \<Rightarrow> bool) \<Rightarrow> preview_entry list \<times> heap" where
  "build_preview_rows_at h rows hs ts ov pn only_recipients gen_fn valid_fn =
     (let firm_counts = next_addr h;
          h0 = h\<lparr>cells := (cells h)(firm_counts := Map.empty), next_addr := Suc (next_addr h)\<rparr>
      in preview_loop_at hs ts ov pn only_recipients gen_fn valid_fn rows firm_counts h0)"

text \<open>\<open>generate_emails\<close>, which builds its preview rows by a call of its own.\<close>

definition generate_emails_at ::
  "heap \<Rightarrow> row list \<Rightarrow> string list \<Rightarrow> template list \<Rightarrow> overrides \<Rightarrow> parse_name_fn
     \<Rightarrow> (row \<Rightarrow> bool) \<Rightarrow> (string \<Rightarrow> bool) \<Rightarrow> string \<Rightarrow> string option \<Rightarrow> bool
     \<Rightarrow> (draft \<Rightarrow> bool) \<Rightarrow> (gen_error + (int \<times> draft list)) \<times> heap" where
  "generate_emails_at h rows hs ts ov pn gen_fn valid_fn subject_template resume dry_run sink =
     (let (preview_rows, h') = build_preview_rows_at h rows hs ts ov pn True gen_fn valid_fn;
          rows_by_email = build_rows_by_email rows hs pn
      in (generate_loop hs pn rows_by_email (templates_by_id ts) subject_template resume dry_run
            sink preview_rows 0 [], h'))"

section \<open>Vocabulary of the properties\<close>

text \<open>
  Names for expressions that the loop of \<open>build_preview_rows\<close> and
  \<open>choose_template_for_row\<close> compute for one row: the display and the normalised email,
  the firm key, the eligibility test, the template a manual override gives (none when the
  email is empty, no key of the override map, or the id is unknown), the counter of a firm
  key (\<open>firm_counts.get(key, 0)\<close>), and the choice and the entry of one loop step.
\<close>

definition row_email :: "string list \<Rightarrow> parse_name_fn \<Rightarrow> row \<Rightarrow> string" where
  "row_email hs pn r = get_email (PlaceholderResolver hs r pn)"

definition row_email_norm :: "string list \<Rightarrow> parse_name_fn \<Rightarrow> row \<Rightarrow> string" where
  "row_email_norm hs pn r = strip (lower (row_email hs pn r))"

definition row_firm :: "string list \<Rightarrow> parse_name_fn \<Rightarrow> row \<Rightarrow> string" where
  "row_firm hs pn r = get_firm (PlaceholderResolver hs r pn)"

definition row_eligible ::
  "string list \<Rightarrow> parse_name_fn \<Rightarrow> (row \<Rightarrow> bool) \<Rightarrow> (string \<Rightarrow> bool) \<Rightarrow> row \<Rightarrow> bool" where
  "row_eligible hs pn gen_fn valid_fn r \<longleftrightarrow> gen_fn r \<and> valid_fn (row_email hs pn r)"

definition override_of ::
  "string list \<Rightarrow> parse_name_fn \<Rightarrow> template list \<Rightarrow> overrides \<Rightarrow> row \<Rightarrow> template option" where
  "override_of hs pn ts ov r =
     (if row_email_norm hs pn r = [] then None
      else case ov (row_email_norm hs pn r) of
             None \<Rightarrow> None
           | Some tid \<Rightarrow> template_by_id ts tid)"

definition count_of :: "firm_counts \<Rightarrow> string \<Rightarrow> int" where
  "count_of fc k = (case fc k of Some n \<Rightarrow> n | None \<Rightarrow> 0)"

definition row_name_display :: "string list \<Rightarrow> parse_name_fn \<Rightarrow> row \<Rightarrow> string" where
  "row_name_display hs pn r =
     (let rs = PlaceholderResolver hs r pn;
          (first, last) = get_first_last rs
      in if strip (row_get r ''prefix'') \<noteq> [] then first @ '' ('' @ get_full_name rs @ '')''
         else strip (first @ (if last \<noteq> [] then '' '' @ last else [])))"

definition row_choice ::
  "string list \<Rightarrow> template list \<Rightarrow> overrides \<Rightarrow> parse_name_fn \<Rightarrow> (row \<Rightarrow> bool) \<Rightarrow> (string \<Rightarrow> bool)
     \<Rightarrow> row \<Rightarrow> firm_counts \<Rightarrow> (template option \<times> bool) \<times> firm_counts" where
  "row_choice hs ts ov pn gen_fn valid_fn r fc =
     (if row_eligible hs pn gen_fn valid_fn r then choose_template_for_row r hs ts ov fc pn
      else ((None, False), fc))"

definition row_entry ::
  "string list \<Rightarrow> template list \<Rightarrow> overrides \<Rightarrow> parse_name_fn \<Rightarrow> (row \<Rightarrow> bool) \<Rightarrow> (string \<Rightarrow> bool)
     \<Rightarrow> row \<Rightarrow> firm_counts \<Rightarrow> preview_entry" where
  "row_entry hs ts ov pn gen_fn valid_fn r fc =
     (let (chosen, manual) = fst (row_choice hs ts ov pn gen_fn valid_fn r fc) in
      \<lparr> name = row_name_display hs pn r, email = row_email hs pn r,
        email_norm = row_email_norm hs pn r, firm = row_firm hs pn r,
        template_name = (case chosen of Some t \<Rightarrow> tmpl_name t | None \<Rightarrow> no_template_name),
        template_id = map_option tmpl_id chosen,
        is_manual = (chosen \<noteq> None \<and> manual),
        is_eligible = row_eligible hs pn gen_fn valid_fn r \<rparr>)"

text \<open>
  The agreement of preview and generation, in the words of the specification: a preview
  entry that has a template id receives one draft, addressed to the display email of the
  entry, with the subject line and the text of the template of that id resolved on the row
  of the recipient.
\<close>

definition has_template :: "preview_entry \<Rightarrow> bool" where
  "has_template p \<longleftrightarrow> template_id p \<noteq> None"

definition expected_draft ::
  "row list \<Rightarrow> string list \<Rightarrow> template list \<Rightarrow> parse_name_fn \<Rightarrow> string \<Rightarrow> string option
     \<Rightarrow> preview_entry \<Rightarrow> draft" where
  "expected_draft rows hs ts pn subject_template resume p =
     (let r = the (build_rows_by_email rows hs pn (email_norm p));
          t = the (template_by_id ts (the (template_id p)));
          rs = PlaceholderResolver hs r pn
      in \<lparr> to = email p, subject = resolve_text rs subject_template,
           body = wrap_in_html (resolve_text rs (tmpl_text t)), resume_path = resume \<rparr>)"

section \<open>Placeholder substitution\<close>

lemma match_token_append:
  assumes "match_token cs = Some (tok, rest)"
  shows "match_token (cs @ xs) = Some (tok, rest @ xs)"
proof -
  from assms obtain d where d: "dropWhile not_brace cs = d # rest" "d = CHR ''}''"
    and tok: "tok = takeWhile not_brace cs" "tok \<noteq> []"
    by (auto simp: match_token_def Let_def split: list.splits if_splits)
  from d have "d \<in> set cs" "\<not> not_brace d"
    using set_dropWhileD[of d not_brace cs] hd_dropWhile[of not_brace cs] by auto
  then have ex: "\<exists>x\<in>set cs. \<not> not_brace x" by blast
  then have "takeWhile not_brace (cs @ xs) = takeWhile not_brace cs"
    and "dropWhile not_brace (cs @ xs) = dropWhile not_brace cs @ xs"
    by (auto simp: takeWhile_append1 dropWhile_append1)
  with d tok show ?thesis
    by (simp add: match_token_def Let_def)
qed

lemma match_token_None_append:
  assumes "match_token cs = None"
  shows "match_token (cs @ CHR ''{'' # xs) = None"
proof (cases "\<forall>x\<in>set cs. not_brace x")
  case True
  then have "takeWhile not_brace (cs @ CHR ''{'' # xs) = cs"
    and "dropWhile not_brace (cs @ CHR ''{'' # xs) = CHR ''{'' # xs"
    by (simp_all add: not_brace_def takeWhile_append2 dropWhile_append2)
  then show ?thesis
    by (simp add: match_token_def Let_def)
next
  case False
  then obtain x where x: "x \<in> set cs" "\<not> not_brace x"
    by blast
  have "takeWhile not_brace (cs @ CHR ''{'' # xs) = takeWhile not_brace cs"
    using x by (rule takeWhile_append1)
  moreover have "dropWhile not_brace (cs @ CHR ''{'' # xs) = dropWhile not_brace cs @ CHR ''{'' # xs"
    using x by (rule dropWhile_append1)
  moreover from x have "dropWhile not_brace cs \<noteq> []"
    by auto
  ultimately show ?thesis
    using assms by (auto simp: match_token_def Let_def split: list.splits if_splits)
qed

lemma match_token_token:
  assumes "tok \<noteq> []" "CHR ''{'' \<notin> set tok" "CHR ''}'' \<notin> set tok"
  shows "match_token (tok @ CHR ''}'' # post) = Some (tok, post)"
proof -
  have "\<forall>x\<in>set tok. not_brace x"
    using assms by (auto simp: not_brace_def)
  then have "takeWhile not_brace (tok @ CHR ''}'' # post) = tok"
    and "dropWhile not_brace (tok @ CHR ''}'' # post) = CHR ''}'' # post"
    by (simp_all add: not_brace_def takeWhile_append2 dropWhile_append2)
  with assms show ?thesis
    by (simp add: match_token_def Let_def)
qed

lemma re_sub_token:
  assumes "tok \<noteq> []" "CHR ''{'' \<notin> set tok" "CHR ''}'' \<notin> set tok"
  shows "re_sub f (pre @ CHR ''{'' # tok @ CHR ''}'' # post) = re_sub f pre @ f tok @ re_sub f post"
proof (induction f pre rule: re_sub.induct)
  case (1 f)
  show ?case
    using assms by (simp add: match_token_token)
next
  case (2 f c cs)
  show ?case
  proof (cases "c = CHR ''{''")
    case False
    with 2 show ?thesis by simp
  next
    case True
    show ?thesis
    proof (cases "match_token cs")
      case None
      with True 2 show ?thesis
        by (simp add: match_token_None_append)
    next
      case (Some x)
      then obtain t rest where x: "x = (t, rest)" by (cases x)
      have "re_sub f (rest @ CHR ''{'' # tok @ CHR ''}'' # post) =
          re_sub f rest @ f tok @ re_sub f post"
        using 2(2)[OF True Some x[symmetric]] .
      with Some True x show ?thesis
        by (simp add: match_token_append)
    qed
  qed
qed

lemma re_sub_no_open: "CHR ''{'' \<notin> set s \<Longrightarrow> re_sub f s = s"
  by (induction s) auto

lemma re_sub_no_close: "CHR ''}'' \<notin> set s \<Longrightarrow> re_sub f s = s"
proof (induction f s rule: re_sub.induct)
  case (1 f)
  show ?case by simp
next
  case (2 f c cs)
  have "match_token cs = None"
  proof (cases "match_token cs")
    case (Some x)
    then obtain rest where "dropWhile not_brace cs = CHR ''}'' # rest"
      by (auto simp: match_token_def Let_def split: list.splits if_splits)
    then have "CHR ''}'' \<in> set (dropWhile not_brace cs)" by simp
    then have "CHR ''}'' \<in> set cs" by (rule set_dropWhileD)
    with 2(4) show ?thesis by simp
  qed simp
  with 2 show ?case by simp
qed

lemma resolve_text_re_sub: "resolve_text rs s = re_sub (resolve_token rs) s"
  by (simp add: resolve_text_def re_sub_no_open)

lemma find_eq_key: "find (\<lambda>h. h = key) hs = (if key \<in> set hs then Some key else None)"
  by (induction hs) auto

lemma dom_six:
  "dom [''first name'' \<mapsto> a, ''last name'' \<mapsto> b, ''full name'' \<mapsto> c,
        ''firm'' \<mapsto> d, ''firm name'' \<mapsto> e, ''school'' \<mapsto> f] =
     {''first name'', ''last name'', ''full name'', ''firm'', ''firm name'', ''school''}"
  by auto

lemma dom_upd_in: "k \<in> dom m \<Longrightarrow> dom (m(k \<mapsto> x)) = dom m"
  by auto

lemma dom_build_derived_defaults:
  "dom (build_derived_defaults hs r pn fnh ch sh) =
     {''first name'', ''last name'', ''full name'', ''firm'', ''firm name'', ''school''}"
proof -
  define K where "K = {''first name'', ''last name'', ''full name'', ''firm'', ''firm name'', ''school''}"
  have k: "''first name'' \<in> K" by (simp add: K_def)
  have six: "dom [''first name'' \<mapsto> a, ''last name'' \<mapsto> b, ''full name'' \<mapsto> c,
        ''firm'' \<mapsto> d, ''firm name'' \<mapsto> e, ''school'' \<mapsto> f] = K" for a b c d e f :: string
    unfolding K_def by (rule dom_six)
  have upd: "dom ([''first name'' \<mapsto> a, ''last name'' \<mapsto> b, ''full name'' \<mapsto> c,
        ''firm'' \<mapsto> d, ''firm name'' \<mapsto> e, ''school'' \<mapsto> f](''first name'' \<mapsto> x)) = K"
    for a b c d e f x :: string
    using dom_upd_in[of "''first name''" "[''first name'' \<mapsto> a, ''last name'' \<mapsto> b, ''full name'' \<mapsto> c,
        ''firm'' \<mapsto> d, ''firm name'' \<mapsto> e, ''school'' \<mapsto> f]" x] k
    by (simp only: six)
  have "dom (build_derived_defaults hs r pn fnh ch sh) = K"
    unfolding build_derived_defaults_def Let_def split_beta
    by (simp only: if_distrib[of dom] six upd if_cancel)
  then show ?thesis by (simp only: K_def)
qed

lemma derived_PlaceholderResolver:
  "dom (derived (PlaceholderResolver hs r pn)) =
     {''first name'', ''last name'', ''full name'', ''firm'', ''firm name'', ''school''}"
  by (simp add: PlaceholderResolver_def Let_def dom_build_derived_defaults)

lemma headers_PlaceholderResolver: "headers (PlaceholderResolver hs r pn) = hs"
  by (simp add: PlaceholderResolver_def Let_def)

lemma row_PlaceholderResolver: "row (PlaceholderResolver hs r pn) = r"
  by (simp add: PlaceholderResolver_def Let_def)

lemma resolve_token_priority:
  "resolve_token rs tok =
     (let key = lower (strip tok) in
      case derived rs key of
        Some v \<Rightarrow> v
      | None \<Rightarrow> if key \<in> set (headers rs) then strip (row_get (row rs) key) else [])"
  by (simp add: resolve_token_def Let_def find_eq_key split: option.splits)

text \<open>
  Claim C5. A token \<open>{tok}\<close> of the text is replaced by its value, found in this order:
  the derived placeholder map (keys \<open>first name\<close>, \<open>last name\<close>, \<open>full name\<close>, \<open>firm\<close>,
  \<open>firm name\<close>, \<open>school\<close>) at the trimmed, lowercased token; else the trimmed cell of the
  header equal to the trimmed, lowercased token; else the empty string. The text before and
  after the token is resolved on its own, and the function is total (it never raises).
\<close>

theorem resolve_text_token_priority:
  assumes "tok \<noteq> []" and "CHR ''{'' \<notin> set tok" and "CHR ''}'' \<notin> set tok"
    and "rs = PlaceholderResolver hs r pn" and "key = lower (strip tok)"
  shows "resolve_text rs (pre @ ''{'' @ tok @ ''}'' @ post) =
           resolve_text rs pre @
           (if key \<in> {''first name'', ''last name'', ''full name'', ''firm'', ''firm name'', ''school''}
            then the (derived rs key)
            else if key \<in> set hs then strip (row_get r key)
            else []) @
           resolve_text rs post"
proof -
  have "resolve_token rs tok =
      (if key \<in> {''first name'', ''last name'', ''full name'', ''firm'', ''firm name'', ''school''}
            then the (derived rs key)
            else if key \<in> set hs then strip (row_get r key)
            else [])"
  proof (cases "derived rs key")
    case None
    then have "key \<notin> dom (derived rs)" by (simp add: domIff)
    then have "key \<notin> {''first name'', ''last name'', ''full name'', ''firm'', ''firm name'', ''school''}"
      unfolding assms(4) derived_PlaceholderResolver .
    with None show ?thesis
      unfolding resolve_token_priority Let_def assms(5)[symmetric]
      by (simp add: assms(4) headers_PlaceholderResolver row_PlaceholderResolver)
  next
    case (Some v)
    then have "key \<in> dom (derived rs)" by (simp add: domIff)
    then have "key \<in> {''first name'', ''last name'', ''full name'', ''firm'', ''firm name'', ''school''}"
      unfolding assms(4) derived_PlaceholderResolver .
    with Some show ?thesis
      unfolding resolve_token_priority Let_def assms(5)[symmetric]
      by simp
  qed
  moreover have "re_sub (resolve_token rs) (pre @ ''{'' @ tok @ ''}'' @ post) =
     re_sub (resolve_token rs) pre @ resolve_token rs tok @ re_sub (resolve_token rs) post"
    using re_sub_token[OF assms(1-3), of "resolve_token rs" pre post] by simp
  ultimately show ?thesis
    unfolding resolve_text_re_sub by (simp only:)
qed

theorem resolve_text_token_priority_witness:
  "resolve_text
     (PlaceholderResolver [''name'', ''firm'', ''email'']
        [(''name'', ''Jane Doe''), (''firm'', '' Acme ''), (''email'', ''jane@acme.com'')]
        (\<lambda>s. (s, [])))
     ''Hi { Firm }, {EMAIL}{nope}!'' = ''Hi Acme, jane@acme.com!''"
proof -
  let ?hs = "[''name'', ''firm'', ''email'']"
  let ?r = "[(''name'', ''Jane Doe''), (''firm'', '' Acme ''), (''email'', ''jane@acme.com'')]"
  let ?pn = "\<lambda>s::string. (s, []::string)"
  let ?rs = "PlaceholderResolver ?hs ?r ?pn"
  have p: "resolve_text ?rs ''Hi { Firm }, '' = ''Hi Acme, ''"
    by code_simp
  have q: "resolve_text ?rs ''{nope}!'' = ''!''"
    by code_simp
  have k: "lower (strip ''EMAIL'') = ''email''"
    by code_simp
  have v: "strip (row_get ?r ''email'') = ''jane@acme.com''"
    by code_simp
  have "resolve_text ?rs (''Hi { Firm }, '' @ ''{'' @ ''EMAIL'' @ ''}'' @ ''{nope}!'') =
        ''Hi Acme, '' @ ''jane@acme.com'' @ ''!''"
    using resolve_text_token_priority[where tok = "''EMAIL''" and pre = "''Hi { Firm }, ''" and post = "''{nope}!''"
        and hs = ?hs and r = ?r and pn = ?pn, OF _ _ _ refl refl]
    unfolding p q k v by simp
  then show ?thesis
    by simp
qed

text \<open>
  Claim C7. When the resolved text holds no opening brace, resolving it again changes
  nothing. The substitution is a single pass: the value of a token is inserted as it is
  (whatever it contains) between the resolved text before and after the token, and a text
  without an opening or without a closing brace is returned unchanged.
\<close>

theorem resolve_text_single_pass:
  "(CHR ''{'' \<notin> set (resolve_text rs text) \<longrightarrow>
      resolve_text rs (resolve_text rs text) = resolve_text rs text) \<and>
   (tok \<noteq> [] \<and> CHR ''{'' \<notin> set tok \<and> CHR ''}'' \<notin> set tok \<longrightarrow>
      resolve_text rs (pre @ ''{'' @ tok @ ''}'' @ post) =
        resolve_text rs pre @ resolve_token rs tok @ resolve_text rs post) \<and>
   (CHR ''{'' \<notin> set text \<or> CHR ''}'' \<notin> set text \<longrightarrow> resolve_text rs text = text)"
proof (intro conjI impI)
  assume "CHR ''{'' \<notin> set (resolve_text rs text)"
  then show "resolve_text rs (resolve_text rs text) = resolve_text rs text"
    by (simp add: resolve_text_def)
next
  assume "tok \<noteq> [] \<and> CHR ''{'' \<notin> set tok \<and> CHR ''}'' \<notin> set tok"
  then have "re_sub (resolve_token rs) (pre @ CHR ''{'' # tok @ CHR ''}'' # post) =
     re_sub (resolve_token rs) pre @ resolve_token rs tok @ re_sub (resolve_token rs) post"
    by (simp add: re_sub_token)
  then show "resolve_text rs (pre @ ''{'' @ tok @ ''}'' @ post) =
        resolve_text rs pre @ resolve_token rs tok @ resolve_text rs post"
    unfolding resolve_text_re_sub by simp
next
  assume "CHR ''{'' \<notin> set text \<or> CHR ''}'' \<notin> set text"
  then show "resolve_text rs text = text"
    unfolding resolve_text_re_sub using re_sub_no_open re_sub_no_close by blast
qed

theorem resolve_text_single_pass_witness:
  "resolve_text
     (PlaceholderResolver [''name'', ''firm'', ''email'']
        [(''name'', ''Jane Doe''), (''firm'', ''Acme''), (''email'', ''jane@acme.com'')]
        (\<lambda>s. (s, [])))
     (resolve_text
        (PlaceholderResolver [''name'', ''firm'', ''email'']
           [(''name'', ''Jane Doe''), (''firm'', ''Acme''), (''email'', ''jane@acme.com'')]
           (\<lambda>s. (s, [])))
        ''Hi {firm}'') = ''Hi Acme''"
proof -
  let ?rs = "PlaceholderResolver [''name'', ''firm'', ''email'']
        [(''name'', ''Jane Doe''), (''firm'', ''Acme''), (''email'', ''jane@acme.com'')]
        (\<lambda>s. (s, []))"
  have p: "resolve_text ?rs ''Hi {firm}'' = ''Hi Acme''"
    by code_simp
  have "CHR ''{'' \<notin> set (resolve_text ?rs ''Hi {firm}'')"
    unfolding p by simp
  then have "resolve_text ?rs (resolve_text ?rs ''Hi {firm}'') = resolve_text ?rs ''Hi {firm}''"
    using resolve_text_single_pass[of ?rs "''Hi {firm}''"] by blast
  then show ?thesis
    unfolding p .
qed

section \<open>Template selection and the preview pass\<close>

lemma preview_loop_Cons:
  "preview_loop hs ts ov pn only g v (r # rows) fc =
     (if only \<and> \<not> row_eligible hs pn g v r then preview_loop hs ts ov pn only g v rows fc
      else (row_entry hs ts ov pn g v r fc #
              fst (preview_loop hs ts ov pn only g v rows (snd (row_choice hs ts ov pn g v r fc))),
            snd (preview_loop hs ts ov pn only g v rows (snd (row_choice hs ts ov pn g v r fc)))))"
  by (auto simp: Let_def split_beta row_entry_def row_choice_def row_eligible_def row_email_def
      row_email_norm_def row_firm_def row_name_display_def split: option.splits)

declare preview_loop.simps(2) [simp del]

lemma choose_template_for_row_eq:
  "choose_template_for_row r hs ts ov fc pn =
     (case override_of hs pn ts ov r of
        Some t \<Rightarrow> ((Some t, True), fc)
      | None \<Rightarrow>
          if rotatable_templates ts = [] then ((None, False), fc)
          else ((Some (rotatable_templates ts !
                   nat (count_of fc (row_firm hs pn r) mod int (length (rotatable_templates ts)))),
                 False),
                fc(row_firm hs pn r \<mapsto> count_of fc (row_firm hs pn r) + 1)))"
  by (auto simp: choose_template_for_row_def Let_def override_of_def row_email_norm_def
      row_email_def row_firm_def count_of_def domIff split: option.splits)

lemma override_of_Some:
  "row_email_norm hs pn r \<noteq> [] \<Longrightarrow> ov (row_email_norm hs pn r) = Some tid \<Longrightarrow>
   override_of hs pn ts ov r = template_by_id ts tid"
  by (simp add: override_of_def)

lemma template_by_id_Some:
  "template_by_id ts tid = Some t \<Longrightarrow> t \<in> set ts \<and> tmpl_id t = tid"
  unfolding template_by_id_def by (induction ts) (auto split: if_splits)

lemma preview_loop_skip:
  "only \<and> \<not> row_eligible hs pn g v r \<Longrightarrow>
   preview_loop hs ts ov pn only g v (r # rows) fc = preview_loop hs ts ov pn only g v rows fc"
  by (simp add: preview_loop_Cons)

lemma preview_loop_keep:
  "\<not> (only \<and> \<not> row_eligible hs pn g v r) \<Longrightarrow>
   preview_loop hs ts ov pn only g v (r # rows) fc =
     (row_entry hs ts ov pn g v r fc #
        fst (preview_loop hs ts ov pn only g v rows (snd (row_choice hs ts ov pn g v r fc))),
      snd (preview_loop hs ts ov pn only g v rows (snd (row_choice hs ts ov pn g v r fc))))"
  by (simp only: preview_loop_Cons if_False)

lemma preview_loop_append:
  "preview_loop hs ts ov pn only g v (xs @ ys) fc =
     (fst (preview_loop hs ts ov pn only g v xs fc) @
        fst (preview_loop hs ts ov pn only g v ys (snd (preview_loop hs ts ov pn only g v xs fc))),
      snd (preview_loop hs ts ov pn only g v ys (snd (preview_loop hs ts ov pn only g v xs fc))))"
proof (induction xs arbitrary: fc)
  case Nil
  show ?case by simp
next
  case (Cons x xs)
  show ?case
  proof (cases "only \<and> \<not> row_eligible hs pn g v x")
    case True
    show ?thesis
      by (simp only: append_Cons preview_loop_skip[OF True] Cons.IH)
  next
    case False
    show ?thesis
      by (simp only: append_Cons preview_loop_keep[OF False] Cons.IH fst_conv snd_conv)
  qed
qed

lemma row_choice_override:
  "override_of hs pn ts ov r = Some t \<Longrightarrow> snd (row_choice hs ts ov pn g v r fc) = fc"
  by (simp add: row_choice_def choose_template_for_row_eq)

lemma count_of_upd: "count_of (fc(k \<mapsto> n)) f = (if f = k then n else count_of fc f)"
  by (simp add: count_of_def)

lemma row_choice_rotation:
  assumes "row_eligible hs pn g v r \<longrightarrow> override_of hs pn ts ov r = None"
    and "rotatable_templates ts \<noteq> []"
  shows "row_choice hs ts ov pn g v r fc =
     (if row_eligible hs pn g v r
      then ((Some (rotatable_templates ts !
                nat (count_of fc (row_firm hs pn r) mod int (length (rotatable_templates ts)))),
             False),
            fc(row_firm hs pn r \<mapsto> count_of fc (row_firm hs pn r) + 1))
      else ((None, False), fc))"
  using assms by (simp add: row_choice_def choose_template_for_row_eq)

lemma row_choice_ineligible:
  "\<not> row_eligible hs pn g v r \<Longrightarrow> row_choice hs ts ov pn g v r fc = ((None, False), fc)"
  by (simp add: row_choice_def)

lemma is_eligible_row_entry:
  "is_eligible (row_entry hs ts ov pn g v r fc) = row_eligible hs pn g v r"
  by (simp add: row_entry_def split_beta)

lemma length_preview_loop_all:
  "length (fst (preview_loop hs ts ov pn False g v rows fc)) = length rows"
  by (induction rows arbitrary: fc) (simp_all add: preview_loop_keep)

lemma preview_loop_nth:
  assumes "i < length rows"
  shows "fst (preview_loop hs ts ov pn False g v rows fc) ! i =
           row_entry hs ts ov pn g v (rows ! i)
             (snd (preview_loop hs ts ov pn False g v (take i rows) fc))"
proof -
  have "rows = take i rows @ rows ! i # drop (Suc i) rows"
    using assms by (simp add: id_take_nth_drop)
  then have "fst (preview_loop hs ts ov pn False g v rows fc) ! i =
      fst (preview_loop hs ts ov pn False g v (take i rows @ rows ! i # drop (Suc i) rows) fc) ! i"
    by simp
  also have "\<dots> = row_entry hs ts ov pn g v (rows ! i)
             (snd (preview_loop hs ts ov pn False g v (take i rows) fc))"
    using assms
    by (simp add: preview_loop_append preview_loop_keep nth_append length_preview_loop_all)
  finally show ?thesis .
qed

lemma preview_loop_counts:
  assumes "\<forall>r\<in>set rows. row_eligible hs pn g v r \<longrightarrow> override_of hs pn ts ov r = None"
    and "rotatable_templates ts \<noteq> []"
  shows "count_of (snd (preview_loop hs ts ov pn only g v rows fc)) f =
           count_of fc f +
           int (length (filter (\<lambda>r. row_eligible hs pn g v r \<and> row_firm hs pn r = f) rows))"
  using assms(1)
proof (induction rows arbitrary: fc)
  case Nil
  show ?case by simp
next
  case (Cons r rows)
  then have IH: "count_of (snd (preview_loop hs ts ov pn only g v rows fc')) f =
           count_of fc' f +
           int (length (filter (\<lambda>r. row_eligible hs pn g v r \<and> row_firm hs pn r = f) rows))" for fc'
    by simp
  have rc: "row_eligible hs pn g v r \<longrightarrow> override_of hs pn ts ov r = None"
    using Cons.prems by simp
  show ?case
  proof (cases "only \<and> \<not> row_eligible hs pn g v r")
    case True
    then have ne: "\<not> row_eligible hs pn g v r"
      by simp
    show ?thesis
      by (simp add: preview_loop_skip[OF True] IH ne)
  next
    case False
    show ?thesis
      by (simp add: preview_loop_keep[OF False] IH row_choice_rotation[OF rc assms(2)] count_of_upd)
  qed
qed

lemma preview_loop_filter:
  "preview_loop hs ts ov pn True g v rows fc =
     (filter is_eligible (fst (preview_loop hs ts ov pn False g v rows fc)),
      snd (preview_loop hs ts ov pn False g v rows fc))"
proof (induction rows arbitrary: fc)
  case Nil
  show ?case by simp
next
  case (Cons r rows)
  show ?case
  proof (cases "row_eligible hs pn g v r")
    case True
    then show ?thesis
      by (simp add: preview_loop_keep Cons.IH is_eligible_row_entry)
  next
    case False
    then show ?thesis
      by (simp add: preview_loop_keep preview_loop_skip Cons.IH is_eligible_row_entry
          row_choice_ineligible)
  qed
qed

text \<open>
  Claim C4. When the normalised email of the row is not empty, is a key of the override map
  and the template id stored there exists among the templates, \<open>choose_template_for_row\<close>
  returns that template with \<open>is_manual = True\<close>, also when the template is
  \<open>manual_only\<close> and therefore absent from the rotation.
\<close>

theorem override_wins_over_rotation:
  assumes "row_email_norm hs pn r \<noteq> []"
    and "ov (row_email_norm hs pn r) = Some tid"
    and "template_by_id ts tid = Some t"
  shows "fst (choose_template_for_row r hs ts ov fc pn) = (Some t, True) \<and>
         t \<in> set ts \<and> tmpl_id t = tid \<and>
         (manual_only t \<longrightarrow> t \<notin> set (rotatable_templates ts))"
  using assms template_by_id_Some[OF assms(3)]
  by (simp add: choose_template_for_row_eq override_of_Some rotatable_templates_def)

theorem override_wins_over_rotation_witness:
  "fst (choose_template_for_row
          [(''name'', ''Jane Doe''), (''firm'', ''Acme''), (''email'', ''Jane@Acme.com'')]
          [''name'', ''firm'', ''email'']
          [\<lparr>tmpl_id = ''t1'', tmpl_name = ''T1'', tmpl_text = ''Hi {first name}'', manual_only = False\<rparr>,
           \<lparr>tmpl_id = ''m'', tmpl_name = ''VIP'', tmpl_text = ''Dear {full name}'', manual_only = True\<rparr>]
          [''jane@acme.com'' \<mapsto> ''m''] Map.empty (\<lambda>s. (s, [])))
     = (Some \<lparr>tmpl_id = ''m'', tmpl_name = ''VIP'', tmpl_text = ''Dear {full name}'', manual_only = True\<rparr>,
        True)"
proof -
  let ?r = "[(''name'', ''Jane Doe''), (''firm'', ''Acme''), (''email'', ''Jane@Acme.com'')]"
  let ?hs = "[''name'', ''firm'', ''email'']"
  let ?pn = "\<lambda>s::string. (s, []::string)"
  let ?m = "\<lparr>tmpl_id = ''m'', tmpl_name = ''VIP'', tmpl_text = ''Dear {full name}'', manual_only = True\<rparr>"
  let ?ts = "[\<lparr>tmpl_id = ''t1'', tmpl_name = ''T1'', tmpl_text = ''Hi {first name}'', manual_only = False\<rparr>, ?m]"
  have e: "row_email_norm ?hs ?pn ?r = ''jane@acme.com''"
    by code_simp
  have h1: "row_email_norm ?hs ?pn ?r \<noteq> []"
    unfolding e by simp
  have h2: "[''jane@acme.com'' \<mapsto> ''m''] (row_email_norm ?hs ?pn ?r) = Some ''m''"
    unfolding e by simp
  have h3: "template_by_id ?ts ''m'' = Some ?m"
    by (simp add: template_by_id_def)
  show ?thesis
    using override_wins_over_rotation[where ov = "[''jane@acme.com'' \<mapsto> ''m'']" and fc = Map.empty, OF h1 h2 h3] by simp
qed

text \<open>
  Claim C10. A recipient resolved through a manual override leaves the firm counters as they
  were: \<open>choose_template_for_row\<close> returns the counters unchanged, so does the loop step
  for that row, and the entries of all other rows (and so their rotation) are the same with
  the overridden row in the list and without it.
\<close>

theorem override_leaves_counters:
  assumes "row_email_norm hs pn r \<noteq> []"
    and "ov (row_email_norm hs pn r) = Some tid"
    and "template_by_id ts tid = Some t"
  shows "snd (choose_template_for_row r hs ts ov fc pn) = fc \<and>
         snd (preview_loop hs ts ov pn only g v [r] fc) = fc \<and>
         (let A = preview_loop hs ts ov pn only g v pre Map.empty;
              E = preview_loop hs ts ov pn only g v [r] (snd A);
              B = preview_loop hs ts ov pn only g v post (snd A)
          in build_preview_rows (pre @ r # post) hs ts ov pn only g v = fst A @ fst E @ fst B \<and>
             build_preview_rows (pre @ post) hs ts ov pn only g v = fst A @ fst B)"
proof -
  have o: "override_of hs pn ts ov r = Some t"
    using assms by (simp add: override_of_Some)
  have a: "snd (choose_template_for_row r hs ts ov fc pn) = fc"
    by (simp add: choose_template_for_row_eq o)
  have b: "snd (preview_loop hs ts ov pn only g v [r] fc') = fc'" for fc'
    by (simp add: preview_loop_Cons row_choice_override[OF o])
  have c: "preview_loop hs ts ov pn only g v (pre @ r # post) Map.empty =
      preview_loop hs ts ov pn only g v (pre @ [r] @ post) Map.empty"
    by simp
  show ?thesis
    unfolding Let_def build_preview_rows_def c
    by (simp only: a b preview_loop_append fst_conv snd_conv simp_thms)
qed

theorem override_leaves_counters_witness:
  "snd (choose_template_for_row
          [(''name'', ''Jane Doe''), (''firm'', ''Acme''), (''email'', ''Jane@Acme.com'')]
          [''name'', ''firm'', ''email'']
          [\<lparr>tmpl_id = ''t1'', tmpl_name = ''T1'', tmpl_text = ''Hi {first name}'', manual_only = False\<rparr>,
           \<lparr>tmpl_id = ''m'', tmpl_name = ''VIP'', tmpl_text = ''Dear {full name}'', manual_only = True\<rparr>]
          [''jane@acme.com'' \<mapsto> ''m''] [''Acme'' \<mapsto> 1] (\<lambda>s. (s, [])))
     = [''Acme'' \<mapsto> 1]"
proof -
  let ?r = "[(''name'', ''Jane Doe''), (''firm'', ''Acme''), (''email'', ''Jane@Acme.com'')]"
  let ?hs = "[''name'', ''firm'', ''email'']"
  let ?pn = "\<lambda>s::string. (s, []::string)"
  let ?m = "\<lparr>tmpl_id = ''m'', tmpl_name = ''VIP'', tmpl_text = ''Dear {full name}'', manual_only = True\<rparr>"
  let ?ts = "[\<lparr>tmpl_id = ''t1'', tmpl_name = ''T1'', tmpl_text = ''Hi {first name}'', manual_only = False\<rparr>, ?m]"
  have e: "row_email_norm ?hs ?pn ?r = ''jane@acme.com''"
    by code_simp
  have h1: "row_email_norm ?hs ?pn ?r \<noteq> []"
    unfolding e by simp
  have h2: "[''jane@acme.com'' \<mapsto> ''m''] (row_email_norm ?hs ?pn ?r) = Some ''m''"
    unfolding e by simp
  have h3: "template_by_id ?ts ''m'' = Some ?m"
    by (simp add: template_by_id_def)
  show ?thesis
    using override_leaves_counters[where ov = "[''jane@acme.com'' \<mapsto> ''m'']" and fc = "[''Acme'' \<mapsto> 1]",
        OF h1 h2 h3, THEN conjunct1] .
qed

text \<open>
  Claim C3. In one pass with no applicable override and a non-empty rotatable list \<open>rot\<close>,
  the \<open>N\<close>-th eligible row of a firm key, counted in row order, gets
  \<open>rot ! ((N - 1) mod length rot)\<close>; an ineligible row gets no template and is not counted,
  so the final counter of every firm key is the number of its eligible rows. With
  \<open>only_recipients\<close> the output is the eligible sublist of the full output.
\<close>

theorem rotation_round_robin_per_firm:
  assumes "\<forall>r\<in>set rows. row_eligible hs pn g v r \<longrightarrow> override_of hs pn ts ov r = None"
    and "rot = rotatable_templates ts" and "rot \<noteq> []"
  shows "build_preview_rows rows hs ts ov pn True g v =
           filter is_eligible (build_preview_rows rows hs ts ov pn False g v) \<and>
         length (build_preview_rows rows hs ts ov pn False g v) = length rows \<and>
         (\<forall>i<length rows.
            let e = build_preview_rows rows hs ts ov pn False g v ! i;
                r = rows ! i;
                N = length (filter (\<lambda>r'. row_eligible hs pn g v r' \<and> row_firm hs pn r' = row_firm hs pn r)
                              (take (Suc i) rows))
            in is_eligible e = row_eligible hs pn g v r \<and> \<not> is_manual e \<and>
               (if row_eligible hs pn g v r
                then template_id e = Some (tmpl_id (rot ! ((N - 1) mod length rot))) \<and>
                     template_name e = tmpl_name (rot ! ((N - 1) mod length rot))
                else template_id e = None)) \<and>
         (\<forall>f. count_of (snd (preview_loop hs ts ov pn only g v rows Map.empty)) f =
                int (length (filter (\<lambda>r. row_eligible hs pn g v r \<and> row_firm hs pn r = f) rows)))"
proof (intro conjI allI impI)
  show "build_preview_rows rows hs ts ov pn True g v =
           filter is_eligible (build_preview_rows rows hs ts ov pn False g v)"
    by (simp add: build_preview_rows_def preview_loop_filter)
  show "length (build_preview_rows rows hs ts ov pn False g v) = length rows"
    by (simp add: build_preview_rows_def length_preview_loop_all)
  show "count_of (snd (preview_loop hs ts ov pn only g v rows Map.empty)) f =
                int (length (filter (\<lambda>r. row_eligible hs pn g v r \<and> row_firm hs pn r = f) rows))" for f
    using preview_loop_counts[OF assms(1), of only Map.empty f] assms(2,3)
    by (simp add: count_of_def)
next
  fix i assume i: "i < length rows"
  define r where "r = rows ! i"
  define P where "P = (\<lambda>r'. row_eligible hs pn g v r' \<and> row_firm hs pn r' = row_firm hs pn r)"
  define fc where "fc = snd (preview_loop hs ts ov pn False g v (take i rows) Map.empty)"
  have rset: "r \<in> set rows"
    using i by (simp add: r_def)
  have rc: "row_eligible hs pn g v r \<longrightarrow> override_of hs pn ts ov r = None"
    using assms(1) rset by blast
  have pre: "\<forall>r\<in>set (take i rows). row_eligible hs pn g v r \<longrightarrow> override_of hs pn ts ov r = None"
    using assms(1) by (meson in_set_takeD)
  have cnt: "count_of fc (row_firm hs pn r) = int (length (filter P (take i rows)))"
    using preview_loop_counts[OF pre, of False Map.empty "row_firm hs pn r"] assms(2,3)
    by (simp add: fc_def P_def count_of_def)
  have N: "length (filter P (take (Suc i) rows)) =
      length (filter P (take i rows)) + (if row_eligible hs pn g v r then 1 else 0)"
    using i by (simp add: take_Suc_conv_app_nth r_def P_def)
  have e: "build_preview_rows rows hs ts ov pn False g v ! i = row_entry hs ts ov pn g v r fc"
    using preview_loop_nth[OF i] by (simp add: build_preview_rows_def r_def fc_def)
  have idx: "nat (int n mod int m) = n mod m" for n m
    by (simp add: nat_mod_distrib)
  have "is_eligible (row_entry hs ts ov pn g v r fc) = row_eligible hs pn g v r \<and>
        \<not> is_manual (row_entry hs ts ov pn g v r fc) \<and>
        (if row_eligible hs pn g v r
         then template_id (row_entry hs ts ov pn g v r fc) =
                Some (tmpl_id (rot ! ((length (filter P (take (Suc i) rows)) - 1) mod length rot))) \<and>
              template_name (row_entry hs ts ov pn g v r fc) =
                tmpl_name (rot ! ((length (filter P (take (Suc i) rows)) - 1) mod length rot))
         else template_id (row_entry hs ts ov pn g v r fc) = None)"
    using assms(2,3)
    by (simp add: row_entry_def row_choice_rotation[OF rc] cnt N idx)
  then show "let e = build_preview_rows rows hs ts ov pn False g v ! i;
                r = rows ! i;
                N = length (filter (\<lambda>r'. row_eligible hs pn g v r' \<and> row_firm hs pn r' = row_firm hs pn r)
                              (take (Suc i) rows))
            in is_eligible e = row_eligible hs pn g v r \<and> \<not> is_manual e \<and>
               (if row_eligible hs pn g v r
                then template_id e = Some (tmpl_id (rot ! ((N - 1) mod length rot))) \<and>
                     template_name e = tmpl_name (rot ! ((N - 1) mod length rot))
                else template_id e = None)"
    unfolding Let_def e r_def[symmetric] P_def[symmetric] .
qed

theorem rotation_round_robin_per_firm_witness:
  "map template_id
     (build_preview_rows
        [[(''name'', ''Ann''), (''firm'', ''Acme''), (''email'', ''ann@acme.com'')],
         [(''name'', ''Bob''), (''firm'', ''Acme''), (''email'', ''bob@acme.com'')],
         [(''name'', ''Cyd''), (''firm'', ''Acme''), (''email'', ''cyd@acme.com'')],
         [(''name'', ''Dan''), (''firm'', ''Acme''), (''email'', ''dan@acme.com'')]]
        [''name'', ''firm'', ''email'']
        [\<lparr>tmpl_id = ''a'', tmpl_name = ''A'', tmpl_text = ''Hi {first name}'', manual_only = False\<rparr>,
         \<lparr>tmpl_id = ''b'', tmpl_name = ''B'', tmpl_text = ''Hello {first name}'', manual_only = False\<rparr>,
         \<lparr>tmpl_id = ''c'', tmpl_name = ''C'', tmpl_text = ''Dear {first name}'', manual_only = False\<rparr>]
        Map.empty (\<lambda>s. (s, [])) False is_generate_true (\<lambda>e. CHR ''@'' \<in> set e))
   = [Some ''a'', Some ''b'', Some ''c'', Some ''a'']"
proof -
  define rows :: "row list" where "rows =
        [[(''name'', ''Ann''), (''firm'', ''Acme''), (''email'', ''ann@acme.com'')],
         [(''name'', ''Bob''), (''firm'', ''Acme''), (''email'', ''bob@acme.com'')],
         [(''name'', ''Cyd''), (''firm'', ''Acme''), (''email'', ''cyd@acme.com'')],
         [(''name'', ''Dan''), (''firm'', ''Acme''), (''email'', ''dan@acme.com'')]]"
  define hs where "hs = [''name'', ''firm'', ''email'']"
  define ts where "ts =
        [\<lparr>tmpl_id = ''a'', tmpl_name = ''A'', tmpl_text = ''Hi {first name}'', manual_only = False\<rparr>,
         \<lparr>tmpl_id = ''b'', tmpl_name = ''B'', tmpl_text = ''Hello {first name}'', manual_only = False\<rparr>,
         \<lparr>tmpl_id = ''c'', tmpl_name = ''C'', tmpl_text = ''Dear {first name}'', manual_only = False\<rparr>]"
  define pn :: parse_name_fn where "pn = (\<lambda>s. (s, []))"
  define v :: "string \<Rightarrow> bool" where "v = (\<lambda>e. CHR ''@'' \<in> set e)"
  define out where "out = build_preview_rows rows hs ts Map.empty pn False is_generate_true v"
  have h: "\<forall>r\<in>set rows. row_eligible hs pn is_generate_true v r \<longrightarrow>
             override_of hs pn ts Map.empty r = None"
    by (simp add: override_of_def)
  have rot: "ts = rotatable_templates ts"
    by (simp add: rotatable_templates_def ts_def)
  have ne: "ts \<noteq> []"
    by (simp add: ts_def)
  have el: "\<forall>r\<in>set rows. row_eligible hs pn is_generate_true v r"
    unfolding rows_def hs_def pn_def v_def by code_simp
  have fm: "\<forall>r\<in>set rows. row_firm hs pn r = ''Acme''"
    unfolding rows_def hs_def pn_def by code_simp
  have len4: "length rows = 4"
    by (simp add: rows_def)
  note main = rotation_round_robin_per_firm[where only = False, OF h rot ne]
  have len: "length out = 4"
    using main len4 by (simp add: out_def)
  have nth: "template_id (out ! i) = Some (tmpl_id (ts ! (i mod 3)))" if i: "i < 4" for i
  proof -
    have ri: "rows ! i \<in> set rows"
      using i len4 by simp
    then have elig: "row_eligible hs pn is_generate_true v (rows ! i)"
      using el by blast
    have "\<forall>r'\<in>set (take (Suc i) rows). row_eligible hs pn is_generate_true v r' \<and>
              row_firm hs pn r' = row_firm hs pn (rows ! i)"
      using el fm ri by (metis in_set_takeD)
    then have "filter (\<lambda>r'. row_eligible hs pn is_generate_true v r' \<and>
              row_firm hs pn r' = row_firm hs pn (rows ! i)) (take (Suc i) rows) = take (Suc i) rows"
      by (simp only: filter_True)
    then have N: "length (filter (\<lambda>r'. row_eligible hs pn is_generate_true v r' \<and>
              row_firm hs pn r' = row_firm hs pn (rows ! i)) (take (Suc i) rows)) = Suc i"
      using i len4 by simp
    have "i < length rows"
      using i len4 by simp
    with main have "let e = out ! i; r = rows ! i;
         N = length (filter (\<lambda>r'. row_eligible hs pn is_generate_true v r' \<and>
              row_firm hs pn r' = row_firm hs pn r) (take (Suc i) rows))
       in is_eligible e = row_eligible hs pn is_generate_true v r \<and> \<not> is_manual e \<and>
               (if row_eligible hs pn is_generate_true v r
                then template_id e = Some (tmpl_id (ts ! ((N - 1) mod length ts))) \<and>
                     template_name e = tmpl_name (ts ! ((N - 1) mod length ts))
                else template_id e = None)"
      unfolding out_def by blast
    then have "template_id (out ! i) = Some (tmpl_id (ts ! ((Suc i - 1) mod length ts)))"
      unfolding Let_def N using elig by simp
    then show ?thesis
      by (simp add: ts_def)
  qed
  have "map template_id out = map (\<lambda>i. template_id (out ! i)) [0..<4]"
    by (rule nth_equalityI) (simp_all add: len)
  also have "\<dots> = map (\<lambda>i. Some (tmpl_id (ts ! (i mod 3)))) [0..<4]"
    using nth by simp
  also have "\<dots> = [Some ''a'', Some ''b'', Some ''c'', Some ''a'']"
    by (simp add: upt_rec ts_def)
  finally show ?thesis
    unfolding out_def rows_def hs_def ts_def pn_def v_def .
qed
section \<open>Successive calls\<close>

lemma choose_template_for_row_at_eq:
  "choose_template_for_row_at r hs ts ov a pn h =
     (fst (choose_template_for_row r hs ts ov (cells h a) pn),
      h\<lparr>cells := (cells h)(a := snd (choose_template_for_row r hs ts ov (cells h a) pn))\<rparr>)"
  by (simp add: choose_template_for_row_at_def choose_template_for_row_def Let_def
      split: option.splits)

lemma preview_loop_at_Cons:
  "preview_loop_at hs ts ov pn only g v (r # rows) a h =
     (if only \<and> \<not> row_eligible hs pn g v r then preview_loop_at hs ts ov pn only g v rows a h
      else (row_entry hs ts ov pn g v r (cells h a) #
              fst (preview_loop_at hs ts ov pn only g v rows a
                     (h\<lparr>cells := (cells h)(a := snd (row_choice hs ts ov pn g v r (cells h a)))\<rparr>)),
            snd (preview_loop_at hs ts ov pn only g v rows a
                     (h\<lparr>cells := (cells h)(a := snd (row_choice hs ts ov pn g v r (cells h a)))\<rparr>))))"
  by (auto simp: Let_def split_beta row_entry_def row_choice_def row_eligible_def row_email_def
      row_email_norm_def row_firm_def row_name_display_def choose_template_for_row_at_eq
      split: option.splits)

declare preview_loop_at.simps(2) [simp del]

lemma preview_loop_at_skip:
  "only \<and> \<not> row_eligible hs pn g v r \<Longrightarrow>
   preview_loop_at hs ts ov pn only g v (r # rows) a h = preview_loop_at hs ts ov pn only g v rows a h"
  by (simp add: preview_loop_at_Cons)

lemma preview_loop_at_keep:
  "\<not> (only \<and> \<not> row_eligible hs pn g v r) \<Longrightarrow>
   preview_loop_at hs ts ov pn only g v (r # rows) a h =
     (row_entry hs ts ov pn g v r (cells h a) #
        fst (preview_loop_at hs ts ov pn only g v rows a
               (h\<lparr>cells := (cells h)(a := snd (row_choice hs ts ov pn g v r (cells h a)))\<rparr>)),
      snd (preview_loop_at hs ts ov pn only g v rows a
               (h\<lparr>cells := (cells h)(a := snd (row_choice hs ts ov pn g v r (cells h a)))\<rparr>)))"
  by (simp only: preview_loop_at_Cons if_False)

lemma preview_loop_at_eq:
  "preview_loop_at hs ts ov pn only g v rows a h =
     (fst (preview_loop hs ts ov pn only g v rows (cells h a)),
      h\<lparr>cells := (cells h)(a := snd (preview_loop hs ts ov pn only g v rows (cells h a)))\<rparr>)"
proof (induction rows arbitrary: h)
  case Nil
  show ?case by simp
next
  case (Cons r rows)
  show ?case
  proof (cases "only \<and> \<not> row_eligible hs pn g v r")
    case True
    show ?thesis
      by (simp only: preview_loop_at_skip[OF True] Cons.IH preview_loop_skip[OF True])
  next
    case False
    define fc1 where "fc1 = snd (row_choice hs ts ov pn g v r (cells h a))"
    define h1 where "h1 = h\<lparr>cells := (cells h)(a := fc1)\<rparr>"
    have s: "preview_loop_at hs ts ov pn only g v (r # rows) a h =
        (row_entry hs ts ov pn g v r (cells h a) #
           fst (preview_loop_at hs ts ov pn only g v rows a h1),
         snd (preview_loop_at hs ts ov pn only g v rows a h1))"
      by (simp only: preview_loop_at_keep[OF False] h1_def fc1_def)
    have ih: "preview_loop_at hs ts ov pn only g v rows a h1 =
        (fst (preview_loop hs ts ov pn only g v rows fc1),
         h\<lparr>cells := (cells h)(a := snd (preview_loop hs ts ov pn only g v rows fc1))\<rparr>)"
    proof -
      have f: "(cells h1)(a := snd (preview_loop hs ts ov pn only g v rows fc1)) =
          (cells h)(a := snd (preview_loop hs ts ov pn only g v rows fc1))"
        by (auto simp: h1_def fun_eq_iff)
      have c: "cells h1 a = fc1"
        by (simp add: h1_def)
      have "h1\<lparr>cells := (cells h)(a := snd (preview_loop hs ts ov pn only g v rows fc1))\<rparr> =
          h\<lparr>cells := (cells h)(a := snd (preview_loop hs ts ov pn only g v rows fc1))\<rparr>"
        unfolding h1_def by (rule heap.equality) simp_all
      then show ?thesis
        by (simp only: Cons.IH[of h1] c f)
    qed
    have k: "preview_loop hs ts ov pn only g v (r # rows) (cells h a) =
        (row_entry hs ts ov pn g v r (cells h a) # fst (preview_loop hs ts ov pn only g v rows fc1),
         snd (preview_loop hs ts ov pn only g v rows fc1))"
      by (simp only: preview_loop_keep[OF False] fc1_def)
    show ?thesis
      by (simp only: s ih k fst_conv snd_conv)
  qed
qed

lemma build_preview_rows_at_eq:
  "build_preview_rows_at h rows hs ts ov pn only g v =
     (build_preview_rows rows hs ts ov pn only g v,
      h\<lparr>cells := (cells h)(next_addr h := snd (preview_loop hs ts ov pn only g v rows Map.empty)),
        next_addr := Suc (next_addr h)\<rparr>)"
  by (simp add: build_preview_rows_at_def build_preview_rows_def Let_def preview_loop_at_eq)

text \<open>
  Claim C6. Two calls of \<open>build_preview_rows\<close> with the same arguments, made one after
  the other in any state of the heap, return the same list of entries: each call creates
  its dictionary of counters at a fresh address and the loop reads and writes that
  dictionary only, so nothing the first call (or any earlier pass) has left on the heap is
  read by the second, the dictionaries that existed before are unchanged, and the preview
  pass inside \<open>generate_emails\<close> is again a pass of its own.
\<close>

theorem build_preview_rows_repeatable:
  assumes "build_preview_rows_at h rows hs ts ov pn only g v = (out1, h1)"
    and "build_preview_rows_at h1 rows hs ts ov pn only g v = (out2, h2)"
  shows "out2 = out1 \<and> out1 = build_preview_rows rows hs ts ov pn only g v \<and>
         (\<forall>a. a < next_addr h \<longrightarrow> cells h2 a = cells h a) \<and>
         fst (generate_emails_at h2 rows hs ts ov pn g v subject_template resume dry_run sink) =
           generate_emails rows hs ts ov pn g v subject_template resume dry_run sink"
proof -
  from assms(1) have o1: "out1 = build_preview_rows rows hs ts ov pn only g v"
    and h1: "h1 = h\<lparr>cells := (cells h)(next_addr h := snd (preview_loop hs ts ov pn only g v rows Map.empty)),
        next_addr := Suc (next_addr h)\<rparr>"
    by (simp_all add: build_preview_rows_at_eq)
  from assms(2) have o2: "out2 = build_preview_rows rows hs ts ov pn only g v"
    and h2: "h2 = h1\<lparr>cells := (cells h1)(next_addr h1 := snd (preview_loop hs ts ov pn only g v rows Map.empty)),
        next_addr := Suc (next_addr h1)\<rparr>"
    by (simp_all add: build_preview_rows_at_eq)
  have frame: "\<forall>a. a < next_addr h \<longrightarrow> cells h2 a = cells h a"
    by (simp add: h1 h2)
  have gen: "fst (generate_emails_at h2 rows hs ts ov pn g v subject_template resume dry_run sink) =
           generate_emails rows hs ts ov pn g v subject_template resume dry_run sink"
    by (simp add: generate_emails_at_def generate_emails_def build_preview_rows_at_eq Let_def)
  show ?thesis
    using o1 o2 frame gen by simp
qed

text \<open>The loop run twice on one dictionary does carry the counters over: the second pass
  starts the rotation where the first has stopped.\<close>

lemma shared_counters_carry_over:
  "map template_id
     (fst (preview_loop_at [''name'', ''firm'', ''email'']
        [\<lparr>tmpl_id = ''t1'', tmpl_name = ''T1'', tmpl_text = ''Hi {first name}'', manual_only = False\<rparr>,
         \<lparr>tmpl_id = ''t2'', tmpl_name = ''T2'', tmpl_text = ''Hello {first name}'', manual_only = False\<rparr>]
        Map.empty (\<lambda>s. (s, [])) True is_generate_true (\<lambda>e. CHR ''@'' \<in> set e)
        [[(''name'', ''Jane Doe''), (''firm'', ''Acme''), (''email'', ''jane@acme.com'')]]
        0 \<lparr>cells = \<lambda>a. Map.empty, next_addr = 1\<rparr>))
   = [Some ''t1''] \<and>
   map template_id
     (fst (preview_loop_at [''name'', ''firm'', ''email'']
        [\<lparr>tmpl_id = ''t1'', tmpl_name = ''T1'', tmpl_text = ''Hi {first name}'', manual_only = False\<rparr>,
         \<lparr>tmpl_id = ''t2'', tmpl_name = ''T2'', tmpl_text = ''Hello {first name}'', manual_only = False\<rparr>]
        Map.empty (\<lambda>s. (s, [])) True is_generate_true (\<lambda>e. CHR ''@'' \<in> set e)
        [[(''name'', ''Jane Doe''), (''firm'', ''Acme''), (''email'', ''jane@acme.com'')]]
        0
        (snd (preview_loop_at [''name'', ''firm'', ''email'']
          [\<lparr>tmpl_id = ''t1'', tmpl_name = ''T1'', tmpl_text = ''Hi {first name}'', manual_only = False\<rparr>,
           \<lparr>tmpl_id = ''t2'', tmpl_name = ''T2'', tmpl_text = ''Hello {first name}'', manual_only = False\<rparr>]
          Map.empty (\<lambda>s. (s, [])) True is_generate_true (\<lambda>e. CHR ''@'' \<in> set e)
          [[(''name'', ''Jane Doe''), (''firm'', ''Acme''), (''email'', ''jane@acme.com'')]]
          0 \<lparr>cells = \<lambda>a. Map.empty, next_addr = 1\<rparr>))))
   = [Some ''t2'']"
  by code_simp

theorem build_preview_rows_repeatable_witness:
  "map template_id
    (fst (build_preview_rows_at
      (snd (build_preview_rows_at \<lparr>cells = (\<lambda>a. Map.empty)(0 := [''Acme'' \<mapsto> 1]), next_addr = 1\<rparr>
        [[(''name'', ''Jane Doe''), (''firm'', ''Acme''), (''email'', ''jane@acme.com'')]]
        [''name'', ''firm'', ''email'']
        [\<lparr>tmpl_id = ''t1'', tmpl_name = ''T1'', tmpl_text = ''Hi {first name}'', manual_only = False\<rparr>,
         \<lparr>tmpl_id = ''t2'', tmpl_name = ''T2'', tmpl_text = ''Hello {first name}'', manual_only = False\<rparr>]
        Map.empty (\<lambda>s. (s, [])) True is_generate_true (\<lambda>e. CHR ''@'' \<in> set e)))
      [[(''name'', ''Jane Doe''), (''firm'', ''Acme''), (''email'', ''jane@acme.com'')]]
      [''name'', ''firm'', ''email'']
      [\<lparr>tmpl_id = ''t1'', tmpl_name = ''T1'', tmpl_text = ''Hi {first name}'', manual_only = False\<rparr>,
       \<lparr>tmpl_id = ''t2'', tmpl_name = ''T2'', tmpl_text = ''Hello {first name}'', manual_only = False\<rparr>]
      Map.empty (\<lambda>s. (s, [])) True is_generate_true (\<lambda>e. CHR ''@'' \<in> set e)))
   = [Some ''t1'']"
proof -
  define rows :: "row list" where
    "rows = [[(''name'', ''Jane Doe''), (''firm'', ''Acme''), (''email'', ''jane@acme.com'')]]"
  define hs where "hs = [''name'', ''firm'', ''email'']"
  define ts where "ts =
        [\<lparr>tmpl_id = ''t1'', tmpl_name = ''T1'', tmpl_text = ''Hi {first name}'', manual_only = False\<rparr>,
         \<lparr>tmpl_id = ''t2'', tmpl_name = ''T2'', tmpl_text = ''Hello {first name}'', manual_only = False\<rparr>]"
  define pn :: parse_name_fn where "pn = (\<lambda>s. (s, []))"
  define v :: "string \<Rightarrow> bool" where "v = (\<lambda>e. CHR ''@'' \<in> set e)"
  define h0 :: heap where "h0 = \<lparr>cells = (\<lambda>a. Map.empty)(0 := [''Acme'' \<mapsto> 1]), next_addr = 1\<rparr>"
  define c1 where "c1 = build_preview_rows_at h0 rows hs ts Map.empty pn True is_generate_true v"
  define c2 where "c2 = build_preview_rows_at (snd c1) rows hs ts Map.empty pn True is_generate_true v"
  have a: "build_preview_rows_at h0 rows hs ts Map.empty pn True is_generate_true v = (fst c1, snd c1)"
    by (simp add: c1_def)
  have b: "build_preview_rows_at (snd c1) rows hs ts Map.empty pn True is_generate_true v =
      (fst c2, snd c2)"
    by (simp add: c2_def)
  have "fst c2 = fst c1"
    using build_preview_rows_repeatable[OF a b] by simp
  moreover have "map template_id (fst c1) = [Some ''t1'']"
    unfolding c1_def rows_def hs_def ts_def pn_def v_def h0_def by code_simp
  ultimately show ?thesis
    unfolding c2_def c1_def rows_def hs_def ts_def pn_def v_def h0_def by simp
qed

section \<open>Preview and generation\<close>

declare generate_loop.simps(2) [simp del]

lemma find_append_case:
  "find P (xs @ ys) = (case find P xs of Some x \<Rightarrow> Some x | None \<Rightarrow> find P ys)"
  by (induction xs) auto

lemma fold_upd_lookup:
  "fold (\<lambda>x m. if c x then m(k x \<mapsto> x) else m) xs m0 e =
     (case find (\<lambda>x. c x \<and> k x = e) (rev xs) of Some x \<Rightarrow> Some x | None \<Rightarrow> m0 e)"
proof (induction xs rule: rev_induct)
  case Nil
  show ?case by simp
next
  case (snoc x xs)
  then show ?case by simp
qed

lemma build_rows_by_email_lookup:
  "build_rows_by_email rows hs pn e =
     find (\<lambda>r. row_email_norm hs pn r \<noteq> [] \<and> row_email_norm hs pn r = e) (rev rows)"
proof -
  have "build_rows_by_email rows hs pn =
      fold (\<lambda>r m. if row_email_norm hs pn r \<noteq> [] then m(row_email_norm hs pn r \<mapsto> r) else m)
        rows Map.empty"
    unfolding build_rows_by_email_def Let_def row_email_norm_def row_email_def ..
  then show ?thesis
    by (simp add: fold_upd_lookup split: option.splits)
qed

lemma row_email_norm_Nil: "row_email_norm hs pn [] = []"
  by (simp add: row_email_norm_def row_email_def get_email_def row_PlaceholderResolver row_get_def
      strip_def lower_def)

lemma build_rows_by_email_found:
  assumes "r \<in> set rows" and "row_email_norm hs pn r = e" and "e \<noteq> []"
  shows "\<exists>r'. build_rows_by_email rows hs pn e = Some r' \<and> r' \<noteq> []"
proof -
  have "\<exists>x\<in>set (rev rows). row_email_norm hs pn x \<noteq> [] \<and> row_email_norm hs pn x = e"
    using assms by auto
  then have "find (\<lambda>r. row_email_norm hs pn r \<noteq> [] \<and> row_email_norm hs pn r = e)
      (rev rows) \<noteq> None"
    unfolding find_None_iff by blast
  then obtain r' where f: "find (\<lambda>r. row_email_norm hs pn r \<noteq> [] \<and> row_email_norm hs pn r = e)
      (rev rows) = Some r'"
    by blast
  then have "row_email_norm hs pn r' \<noteq> []"
    unfolding find_Some_iff by blast
  then have "r' \<noteq> []"
    using row_email_norm_Nil[of hs pn] by auto
  with f show ?thesis
    by (simp add: build_rows_by_email_lookup)
qed

lemma find_rev_distinct:
  "distinct (map k xs) \<Longrightarrow> find (\<lambda>x. k x = e) (rev xs) = find (\<lambda>x. k x = e) xs"
proof (induction xs)
  case Nil
  show ?case by simp
next
  case (Cons x xs)
  then have IH: "find (\<lambda>x. k x = e) (rev xs) = find (\<lambda>x. k x = e) xs"
    by simp
  show ?case
  proof (cases "k x = e")
    case True
    with Cons.prems have "\<forall>y\<in>set xs. k y \<noteq> e"
      by (metis distinct.simps(2) image_eqI list.simps(9) list.set_map)
    then have "find (\<lambda>x. k x = e) xs = None"
      by (simp add: find_None_iff)
    with True IH show ?thesis
      by (simp add: find_append_case)
  next
    case False
    with IH show ?thesis
      by (simp add: find_append_case split: option.splits)
  qed
qed

lemma templates_by_id_distinct:
  assumes "distinct (map tmpl_id ts)"
  shows "templates_by_id ts tid = template_by_id ts tid"
proof -
  have "templates_by_id ts = fold (\<lambda>t m. if True then m(tmpl_id t \<mapsto> t) else m) ts Map.empty"
    by (simp add: templates_by_id_def)
  then have "templates_by_id ts tid = find (\<lambda>t. tmpl_id t = tid) (rev ts)"
    by (simp only: fold_upd_lookup) (simp split: option.splits)
  then show ?thesis
    using find_rev_distinct[OF assms] by (simp add: template_by_id_def)
qed

lemma choose_in_templates:
  assumes "fst (fst (choose_template_for_row r hs ts ov fc pn)) = Some t"
  shows "t \<in> set ts"
proof (cases "override_of hs pn ts ov r")
  case (Some t')
  with assms have "t' = t"
    by (simp add: choose_template_for_row_eq)
  moreover from Some have "\<exists>tid. template_by_id ts tid = Some t'"
    by (auto simp: override_of_def split: if_splits option.splits)
  ultimately show ?thesis
    using template_by_id_Some by blast
next
  case None
  define rot where "rot = rotatable_templates ts"
  define k where "k = nat (count_of fc (row_firm hs pn r) mod int (length rot))"
  from None assms have ne: "rot \<noteq> []" and t: "t = rot ! k"
    by (auto simp: choose_template_for_row_eq rot_def k_def split: if_splits)
  from ne have "0 < int (length rot)"
    by simp
  then have "count_of fc (row_firm hs pn r) mod int (length rot) < int (length rot)"
    and "0 \<le> count_of fc (row_firm hs pn r) mod int (length rot)"
    by (simp_all only: pos_mod_bound pos_mod_sign)
  then have "k < length rot"
    unfolding k_def by linarith
  then have "t \<in> set rot"
    using t by simp
  then show ?thesis
    by (simp add: rot_def rotatable_templates_def)
qed

lemma row_entry_fields:
  "email (row_entry hs ts ov pn g v r fc) = row_email hs pn r"
  "email_norm (row_entry hs ts ov pn g v r fc) = row_email_norm hs pn r"
  "template_id (row_entry hs ts ov pn g v r fc) =
     map_option tmpl_id (fst (fst (row_choice hs ts ov pn g v r fc)))"
  by (simp_all add: row_entry_def split_beta)

lemma row_entry_template_id:
  assumes "template_id (row_entry hs ts ov pn g v r fc) = Some tid"
  shows "\<exists>t\<in>set ts. tmpl_id t = tid"
proof -
  from assms obtain t where c: "fst (fst (row_choice hs ts ov pn g v r fc)) = Some t"
    and t: "tmpl_id t = tid"
    by (auto simp: row_entry_fields)
  from c have "fst (fst (choose_template_for_row r hs ts ov fc pn)) = Some t"
    by (simp add: row_choice_def split: if_splits)
  then have "t \<in> set ts"
    by (rule choose_in_templates)
  with t show ?thesis by blast
qed

lemma preview_entries_from_rows:
  assumes "p \<in> set (fst (preview_loop hs ts ov pn True g v rows fc))"
  shows "\<exists>r\<in>set rows. row_eligible hs pn g v r \<and> email p = row_email hs pn r \<and>
           email_norm p = row_email_norm hs pn r \<and>
           (\<forall>tid. template_id p = Some tid \<longrightarrow> (\<exists>t\<in>set ts. tmpl_id t = tid))"
  using assms
proof (induction rows arbitrary: fc)
  case Nil
  then show ?case by simp
next
  case (Cons r rows)
  show ?case
  proof (cases "row_eligible hs pn g v r")
    case False
    with Cons.prems have "p \<in> set (fst (preview_loop hs ts ov pn True g v rows fc))"
      by (simp add: preview_loop_skip)
    from Cons.IH[OF this] show ?thesis
      by auto
  next
    case True
    with Cons.prems have "p = row_entry hs ts ov pn g v r fc \<or>
        p \<in> set (fst (preview_loop hs ts ov pn True g v rows
                        (snd (row_choice hs ts ov pn g v r fc))))"
      by (simp add: preview_loop_keep)
    then show ?thesis
    proof
      assume p: "p = row_entry hs ts ov pn g v r fc"
      have "\<forall>tid. template_id p = Some tid \<longrightarrow> (\<exists>t\<in>set ts. tmpl_id t = tid)"
        unfolding p using row_entry_template_id by blast
      with True p show ?thesis
        by (simp add: row_entry_fields)
    next
      assume "p \<in> set (fst (preview_loop hs ts ov pn True g v rows
                        (snd (row_choice hs ts ov pn g v r fc))))"
      from Cons.IH[OF this] show ?thesis
        by auto
    qed
  qed
qed

lemma strip_lower_Nil: "strip (lower []) = []"
  by (simp add: strip_def lower_def)

lemma generate_loop_skip:
  assumes "template_id p = None"
  shows "generate_loop hs pn rbe tpls subj res dry sink (p # ps) c cr =
           generate_loop hs pn rbe tpls subj res dry sink ps c cr"
  using assms by (simp add: generate_loop.simps(2) truthy_def Let_def)

lemma generate_loop_draft:
  assumes "email_norm p \<noteq> []" and "email_norm p = strip (lower (email p))"
    and "template_id p = Some tid" and "tid \<noteq> []"
    and "rbe (email_norm p) = Some r" and "r \<noteq> []" and "tpls tid = Some t"
    and "d = \<lparr> to = email p, subject = resolve_text (PlaceholderResolver hs r pn) subj,
               body = wrap_in_html (resolve_text (PlaceholderResolver hs r pn) (tmpl_text t)),
               resume_path = res \<rparr>"
  shows "generate_loop hs pn rbe tpls subj res dry sink (p # ps) c cr =
           (if dry then generate_loop hs pn rbe tpls subj res dry sink ps (c + 1) cr
            else if sink d then generate_loop hs pn rbe tpls subj res dry sink ps (c + 1) (cr @ [d])
            else Inl (SinkFailed d))"
proof -
  have "email p \<noteq> []"
    using assms(1,2) strip_lower_Nil by auto
  then show ?thesis
    using assms by (simp add: generate_loop.simps(2) truthy_def Let_def)
qed

lemma generate_loop_all:
  assumes good: "\<forall>p\<in>set ps. email_norm p \<noteq> [] \<and> email_norm p = strip (lower (email p)) \<and>
              (\<exists>r. build_rows_by_email rows hs pn (email_norm p) = Some r \<and> r \<noteq> []) \<and>
              (\<forall>tid. template_id p = Some tid \<longrightarrow>
                 tid \<noteq> [] \<and> (\<exists>t. templates_by_id ts tid = Some t \<and> template_by_id ts tid = Some t))"
    and sink: "\<not> dry \<longrightarrow> (\<forall>p\<in>set (filter has_template ps).
                 sink (expected_draft rows hs ts pn subj res p))"
  shows "generate_loop hs pn (build_rows_by_email rows hs pn) (templates_by_id ts) subj res dry sink
           ps c cr =
         Inr (c + int (length (filter has_template ps)),
              cr @ (if dry then [] else map (expected_draft rows hs ts pn subj res)
                                          (filter has_template ps)))"
  using good sink
proof (induction ps arbitrary: c cr)
  case Nil
  show ?case by simp
next
  case (Cons p ps)
  have g': "\<forall>p\<in>set ps. email_norm p \<noteq> [] \<and> email_norm p = strip (lower (email p)) \<and>
              (\<exists>r. build_rows_by_email rows hs pn (email_norm p) = Some r \<and> r \<noteq> []) \<and>
              (\<forall>tid. template_id p = Some tid \<longrightarrow>
                 tid \<noteq> [] \<and> (\<exists>t. templates_by_id ts tid = Some t \<and> template_by_id ts tid = Some t))"
    by (intro ballI, rule Cons.prems(1)[THEN bspec], simp)
  have s': "\<not> dry \<longrightarrow> (\<forall>p\<in>set (filter has_template ps).
                 sink (expected_draft rows hs ts pn subj res p))"
    using Cons.prems(2) by (auto simp del: filter.simps simp add: filter.simps(2) split: if_splits)
  note IH = Cons.IH[OF g' s']
  have here: "email_norm p \<noteq> [] \<and> email_norm p = strip (lower (email p)) \<and>
              (\<exists>r. build_rows_by_email rows hs pn (email_norm p) = Some r \<and> r \<noteq> []) \<and>
              (\<forall>tid. template_id p = Some tid \<longrightarrow>
                 tid \<noteq> [] \<and> (\<exists>t. templates_by_id ts tid = Some t \<and> template_by_id ts tid = Some t))"
    by (rule Cons.prems(1)[THEN bspec], simp)
  show ?case
  proof (cases "template_id p")
    case None
    then have "\<not> has_template p"
      by (simp add: has_template_def)
    with None show ?thesis
      using IH[of c cr] by (simp add: generate_loop_skip)
  next
    case (Some tid)
    then have ht: "has_template p"
      by (simp add: has_template_def)
    from here Some obtain r t where
      e1: "email_norm p \<noteq> []" and e2: "email_norm p = strip (lower (email p))" and
      r: "build_rows_by_email rows hs pn (email_norm p) = Some r" "r \<noteq> []" and
      t: "tid \<noteq> []" "templates_by_id ts tid = Some t" "template_by_id ts tid = Some t"
      by blast
    define d where "d = \<lparr> to = email p, subject = resolve_text (PlaceholderResolver hs r pn) subj,
               body = wrap_in_html (resolve_text (PlaceholderResolver hs r pn) (tmpl_text t)),
               resume_path = res \<rparr>"
    have ex: "expected_draft rows hs ts pn subj res p = d"
      by (simp add: expected_draft_def Let_def r t Some d_def)
    have "p \<in> set (filter has_template (p # ps))"
      using ht by simp
    then have sk: "\<not> dry \<longrightarrow> sink d"
      using Cons.prems(2) ex by metis
    have step: "generate_loop hs pn (build_rows_by_email rows hs pn) (templates_by_id ts) subj res dry sink
           (p # ps) c cr =
           (if dry then generate_loop hs pn (build_rows_by_email rows hs pn) (templates_by_id ts)
                          subj res dry sink ps (c + 1) cr
            else if sink d then generate_loop hs pn (build_rows_by_email rows hs pn) (templates_by_id ts)
                          subj res dry sink ps (c + 1) (cr @ [d])
            else Inl (SinkFailed d))"
      by (rule generate_loop_draft[where rbe = "build_rows_by_email rows hs pn"
            and tpls = "templates_by_id ts", OF e1 e2 Some t(1) r t(2) d_def])
    show ?thesis
      unfolding step using IH[of "c + 1" cr] IH[of "c + 1" "cr @ [d]"] sk ht ex
      by (cases dry) simp_all
  qed
qed

text \<open>
  Claim C2, amended. When the template ids are non-empty and pairwise distinct, every
  eligible row has a non-empty normalised email, and the mail sink accepts the drafts,
  \<open>generate_emails\<close> hands one draft to the sink for every preview entry (of the pass with
  \<open>only_recipients = True\<close>) that has a template id, in the order of the preview, built from
  the template with that id; the count it returns, with \<open>dry_run\<close> or without, is the
  number of these entries.
\<close>

theorem generate_emails_agrees_with_preview:
  assumes ids_ne: "\<forall>t\<in>set ts. tmpl_id t \<noteq> []"
    and ids_distinct: "distinct (map tmpl_id ts)"
    and emails: "\<forall>r\<in>set rows. row_eligible hs pn g v r \<longrightarrow> row_email_norm hs pn r \<noteq> []"
    and ps: "ps = filter has_template (build_preview_rows rows hs ts ov pn True g v)"
    and sink: "\<not> dry_run \<longrightarrow> (\<forall>p\<in>set ps. sink (expected_draft rows hs ts pn subject_template resume p))"
  shows "generate_emails rows hs ts ov pn g v subject_template resume dry_run sink =
           Inr (int (length ps),
                if dry_run then []
                else map (expected_draft rows hs ts pn subject_template resume) ps)"
proof -
  define out where "out = build_preview_rows rows hs ts ov pn True g v"
  have good: "\<forall>p\<in>set out. email_norm p \<noteq> [] \<and> email_norm p = strip (lower (email p)) \<and>
              (\<exists>r. build_rows_by_email rows hs pn (email_norm p) = Some r \<and> r \<noteq> []) \<and>
              (\<forall>tid. template_id p = Some tid \<longrightarrow>
                 tid \<noteq> [] \<and> (\<exists>t. templates_by_id ts tid = Some t \<and> template_by_id ts tid = Some t))"
  proof
    fix p assume "p \<in> set out"
    then have "p \<in> set (fst (preview_loop hs ts ov pn True g v rows Map.empty))"
      by (simp add: out_def build_preview_rows_def)
    from preview_entries_from_rows[OF this] obtain r where
      r: "r \<in> set rows" "row_eligible hs pn g v r" "email p = row_email hs pn r"
        "email_norm p = row_email_norm hs pn r"
      and tids: "\<forall>tid. template_id p = Some tid \<longrightarrow> (\<exists>t\<in>set ts. tmpl_id t = tid)"
      by blast
    have ne: "email_norm p \<noteq> []"
      using emails r by simp
    have norm: "email_norm p = strip (lower (email p))"
      using r by (simp add: row_email_norm_def)
    have found: "\<exists>r'. build_rows_by_email rows hs pn (email_norm p) = Some r' \<and> r' \<noteq> []"
      using build_rows_by_email_found[OF r(1) r(4)[symmetric] ne] .
    have tpl: "tid \<noteq> [] \<and> (\<exists>t. templates_by_id ts tid = Some t \<and> template_by_id ts tid = Some t)"
      if "template_id p = Some tid" for tid
    proof -
      from tids that obtain t where t: "t \<in> set ts" "tmpl_id t = tid"
        by blast
      then have "tid \<noteq> []"
        using ids_ne by blast
      moreover have "template_by_id ts tid \<noteq> None"
        using t by (auto simp: template_by_id_def find_None_iff)
      ultimately show ?thesis
        by (auto simp: templates_by_id_distinct[OF ids_distinct])
    qed
    show "email_norm p \<noteq> [] \<and> email_norm p = strip (lower (email p)) \<and>
              (\<exists>r. build_rows_by_email rows hs pn (email_norm p) = Some r \<and> r \<noteq> []) \<and>
              (\<forall>tid. template_id p = Some tid \<longrightarrow>
                 tid \<noteq> [] \<and> (\<exists>t. templates_by_id ts tid = Some t \<and> template_by_id ts tid = Some t))"
      using ne norm found tpl by blast
  qed
  have sk: "\<not> dry_run \<longrightarrow> (\<forall>p\<in>set (filter has_template out).
                 sink (expected_draft rows hs ts pn subject_template resume p))"
    using sink by (simp add: ps out_def)
  show ?thesis
    using generate_loop_all[OF good sk, of 0 "[]"]
    by (simp add: generate_emails_def Let_def out_def ps)
qed

text \<open>
  Claim C2 says that for all inputs every preview entry with a template id yields a draft and
  is counted. It fails for a caller's validity predicate that accepts a row without email
  (the preview assigns a template, the generator skips the entry with an empty normalised
  email), and for a template whose id is the empty string (the generator skips a false id):
  in both cases the preview has one entry with a template id and the count is 0. With two
  templates of one id the preview shows the first and the draft is built from the second.
\<close>

theorem generate_emails_skips_preview_entry:
  "map template_id
     (build_preview_rows [[(''name'', ''Jane Doe''), (''firm'', ''Acme'')]] [''name'', ''firm'']
        [\<lparr>tmpl_id = ''t1'', tmpl_name = ''T1'', tmpl_text = ''Hi {first name}'', manual_only = False\<rparr>]
        Map.empty (\<lambda>s. (s, [])) True is_generate_true (\<lambda>e. True))
     = [Some ''t1''] \<and>
   generate_emails [[(''name'', ''Jane Doe''), (''firm'', ''Acme'')]] [''name'', ''firm'']
        [\<lparr>tmpl_id = ''t1'', tmpl_name = ''T1'', tmpl_text = ''Hi {first name}'', manual_only = False\<rparr>]
        Map.empty (\<lambda>s. (s, [])) is_generate_true (\<lambda>e. True) ''Hello'' None True (\<lambda>d. True)
     = Inr (0, []) \<and>
   map template_id
     (build_preview_rows [[(''name'', ''Jane Doe''), (''email'', ''jane@acme.com'')]] [''name'', ''email'']
        [\<lparr>tmpl_id = '''', tmpl_name = ''T1'', tmpl_text = ''Hi {first name}'', manual_only = False\<rparr>]
        Map.empty (\<lambda>s. (s, [])) True is_generate_true (\<lambda>e. CHR ''@'' \<in> set e))
     = [Some ''''] \<and>
   generate_emails [[(''name'', ''Jane Doe''), (''email'', ''jane@acme.com'')]] [''name'', ''email'']
        [\<lparr>tmpl_id = '''', tmpl_name = ''T1'', tmpl_text = ''Hi {first name}'', manual_only = False\<rparr>]
        Map.empty (\<lambda>s. (s, [])) is_generate_true (\<lambda>e. CHR ''@'' \<in> set e) ''Hello'' None True
        (\<lambda>d. True)
     = Inr (0, []) \<and>
   map template_name
     (build_preview_rows [[(''name'', ''Jane Doe''), (''email'', ''jane@acme.com'')]] [''name'', ''email'']
        [\<lparr>tmpl_id = ''t'', tmpl_name = ''First'', tmpl_text = ''Hi {first name}'', manual_only = False\<rparr>,
         \<lparr>tmpl_id = ''t'', tmpl_name = ''Second'', tmpl_text = ''Bye {first name}'', manual_only = False\<rparr>]
        Map.empty (\<lambda>s. (s, [])) True is_generate_true (\<lambda>e. CHR ''@'' \<in> set e))
     = [''First''] \<and>
   (case generate_emails [[(''name'', ''Jane Doe''), (''email'', ''jane@acme.com'')]] [''name'', ''email'']
        [\<lparr>tmpl_id = ''t'', tmpl_name = ''First'', tmpl_text = ''Hi {first name}'', manual_only = False\<rparr>,
         \<lparr>tmpl_id = ''t'', tmpl_name = ''Second'', tmpl_text = ''Bye {first name}'', manual_only = False\<rparr>]
        Map.empty (\<lambda>s. (s, [])) is_generate_true (\<lambda>e. CHR ''@'' \<in> set e) ''Hello'' None False
        (\<lambda>d. True) of
      Inl e \<Rightarrow> []
    | Inr (n, ds) \<Rightarrow> map body ds)
     = [wrap_in_html ''Bye Jane Doe'']"
  by code_simp

theorem generate_emails_agrees_with_preview_witness:
  "generate_emails
     [[(''name'', ''Jane Doe''), (''firm'', ''Acme''), (''email'', ''jane@acme.com''), (''generate'', ''true'')],
      [(''name'', ''Bob Lee''), (''firm'', ''Acme''), (''email'', ''bob@acme.com''), (''generate'', ''true'')]]
     [''name'', ''firm'', ''email'', ''generate'']
     [\<lparr>tmpl_id = ''1'', tmpl_name = ''T1'', tmpl_text = ''Hi {first name}'', manual_only = False\<rparr>,
      \<lparr>tmpl_id = ''2'', tmpl_name = ''T2'', tmpl_text = ''Hello {first name}'', manual_only = False\<rparr>]
     Map.empty (\<lambda>s. (s, [])) is_generate_true (\<lambda>e. CHR ''@'' \<in> set e) ''Hello'' None False
     (\<lambda>d. True)
   = Inr (2,
       map (expected_draft
              [[(''name'', ''Jane Doe''), (''firm'', ''Acme''), (''email'', ''jane@acme.com''), (''generate'', ''true'')],
               [(''name'', ''Bob Lee''), (''firm'', ''Acme''), (''email'', ''bob@acme.com''), (''generate'', ''true'')]]
              [''name'', ''firm'', ''email'', ''generate'']
              [\<lparr>tmpl_id = ''1'', tmpl_name = ''T1'', tmpl_text = ''Hi {first name}'', manual_only = False\<rparr>,
               \<lparr>tmpl_id = ''2'', tmpl_name = ''T2'', tmpl_text = ''Hello {first name}'', manual_only = False\<rparr>]
              (\<lambda>s. (s, [])) ''Hello'' None)
         (filter has_template
            (build_preview_rows
               [[(''name'', ''Jane Doe''), (''firm'', ''Acme''), (''email'', ''jane@acme.com''), (''generate'', ''true'')],
                [(''name'', ''Bob Lee''), (''firm'', ''Acme''), (''email'', ''bob@acme.com''), (''generate'', ''true'')]]
               [''name'', ''firm'', ''email'', ''generate'']
               [\<lparr>tmpl_id = ''1'', tmpl_name = ''T1'', tmpl_text = ''Hi {first name}'', manual_only = False\<rparr>,
                \<lparr>tmpl_id = ''2'', tmpl_name = ''T2'', tmpl_text = ''Hello {first name}'', manual_only = False\<rparr>]
               Map.empty (\<lambda>s. (s, [])) True is_generate_true (\<lambda>e. CHR ''@'' \<in> set e))))"
proof -
  define rows :: "row list" where "rows =
     [[(''name'', ''Jane Doe''), (''firm'', ''Acme''), (''email'', ''jane@acme.com''), (''generate'', ''true'')],
      [(''name'', ''Bob Lee''), (''firm'', ''Acme''), (''email'', ''bob@acme.com''), (''generate'', ''true'')]]"
  define hs where "hs = [''name'', ''firm'', ''email'', ''generate'']"
  define ts where "ts =
     [\<lparr>tmpl_id = ''1'', tmpl_name = ''T1'', tmpl_text = ''Hi {first name}'', manual_only = False\<rparr>,
      \<lparr>tmpl_id = ''2'', tmpl_name = ''T2'', tmpl_text = ''Hello {first name}'', manual_only = False\<rparr>]"
  define pn :: parse_name_fn where "pn = (\<lambda>s. (s, []))"
  define v :: "string \<Rightarrow> bool" where "v = (\<lambda>e. CHR ''@'' \<in> set e)"
  define ps where "ps = filter has_template
      (build_preview_rows rows hs ts Map.empty pn True is_generate_true v)"
  have h1: "\<forall>t\<in>set ts. tmpl_id t \<noteq> []"
    by (simp add: ts_def)
  have h2: "distinct (map tmpl_id ts)"
    by (simp add: ts_def)
  have h3: "\<forall>r\<in>set rows. row_eligible hs pn is_generate_true v r \<longrightarrow> row_email_norm hs pn r \<noteq> []"
    unfolding rows_def hs_def pn_def v_def by code_simp
  have h5: "\<not> False \<longrightarrow> (\<forall>p\<in>set ps. (\<lambda>d. True) (expected_draft rows hs ts pn ''Hello'' None p))"
    by simp
  have len: "length ps = 2"
    unfolding ps_def rows_def hs_def ts_def pn_def v_def by code_simp
  have "generate_emails rows hs ts Map.empty pn is_generate_true v ''Hello'' None False (\<lambda>d. True) =
      Inr (int (length ps), map (expected_draft rows hs ts pn ''Hello'' None) ps)"
    using generate_emails_agrees_with_preview[where sink = "\<lambda>d. True" and dry_run = False, OF h1 h2 h3 ps_def h5] by simp
  then show ?thesis
    unfolding len unfolding ps_def rows_def hs_def ts_def pn_def v_def by simp
qed

section \<open>Stale overrides\<close>

lemma override_of_prune:
  assumes "ov e = Some tid" and "template_by_id ts tid = None"
  shows "override_of hs pn ts (ov(e := None)) r' = override_of hs pn ts ov r'"
  using assms by (simp add: override_of_def)

lemma choose_template_for_row_prune:
  assumes "ov e = Some tid" and "template_by_id ts tid = None"
  shows "choose_template_for_row r' hs ts (ov(e := None)) fc pn =
           choose_template_for_row r' hs ts ov fc pn"
  by (simp only: choose_template_for_row_eq override_of_prune[where ov = ov and e = e, OF assms])

lemma preview_loop_prune:
  assumes "ov e = Some tid" and "template_by_id ts tid = None"
  shows "preview_loop hs ts (ov(e := None)) pn only g v rows fc =
           preview_loop hs ts ov pn only g v rows fc"
proof (induction rows arbitrary: fc)
  case Nil
  show ?case by simp
next
  case (Cons r' rows)
  have c: "row_choice hs ts (ov(e := None)) pn g v r' fc = row_choice hs ts ov pn g v r' fc"
    by (simp only: row_choice_def choose_template_for_row_prune[where ov = ov and e = e, OF assms])
  have en: "row_entry hs ts (ov(e := None)) pn g v r' fc = row_entry hs ts ov pn g v r' fc"
    by (simp only: row_entry_def c)
  show ?case
    by (simp only: preview_loop_Cons c en Cons.IH)
qed

lemma template_by_id_distinct_self:
  assumes "distinct (map tmpl_id ts)" and "t \<in> set ts"
  shows "template_by_id ts (tmpl_id t) = Some t"
  using assms unfolding template_by_id_def
proof (induction ts)
  case Nil
  then show ?case by simp
next
  case (Cons a ts)
  show ?case
  proof (cases "a = t")
    case True
    then show ?thesis by simp
  next
    case False
    with Cons.prems have "t \<in> set ts" and "tmpl_id a \<notin> tmpl_id ` set ts"
      by auto
    then have "tmpl_id a \<noteq> tmpl_id t"
      by blast
    with Cons \<open>t \<in> set ts\<close> show ?thesis
      by simp
  qed
qed

lemma build_rows_by_email_single:
  "row_email_norm hs pn r \<noteq> [] \<Longrightarrow>
   build_rows_by_email [r] hs pn (row_email_norm hs pn r) = Some r"
  by (simp add: build_rows_by_email_lookup)

lemma generate_loop_Nil:
  "generate_loop hs pn rbe tpls subj res dry sink [] c cr = Inr (c, cr)"
  by simp

text \<open>
  Claim C1 says that a stale override (the email is a key of the override map, the template
  id it names does not exist) yields \<open>(None, False)\<close> even when rotatable templates exist.
  The code falls through to the rotation: with one rotatable template the recipient gets
  that template, the preview shows its id, and the recipient is counted by the generation.
\<close>

theorem stale_override_not_unassigned:
  "strip (lower (get_email (PlaceholderResolver [''name'', ''firm'', ''email'']
       [(''name'', ''Jane Doe''), (''firm'', ''Acme''), (''email'', ''Jane@Acme.com'')] (\<lambda>s. (s, [])))))
     = ''jane@acme.com'' \<and>
   [''jane@acme.com'' \<mapsto> ''gone''] ''jane@acme.com'' = Some ''gone'' \<and>
   template_by_id
     [\<lparr>tmpl_id = ''t1'', tmpl_name = ''T1'', tmpl_text = ''Hi {first name}'', manual_only = False\<rparr>]
     ''gone'' = None \<and>
   fst (choose_template_for_row
          [(''name'', ''Jane Doe''), (''firm'', ''Acme''), (''email'', ''Jane@Acme.com'')]
          [''name'', ''firm'', ''email'']
          [\<lparr>tmpl_id = ''t1'', tmpl_name = ''T1'', tmpl_text = ''Hi {first name}'', manual_only = False\<rparr>]
          [''jane@acme.com'' \<mapsto> ''gone''] Map.empty (\<lambda>s. (s, [])))
     \<noteq> (None, False) \<and>
   map template_id
     (build_preview_rows
        [[(''name'', ''Jane Doe''), (''firm'', ''Acme''), (''email'', ''Jane@Acme.com'')]]
        [''name'', ''firm'', ''email'']
        [\<lparr>tmpl_id = ''t1'', tmpl_name = ''T1'', tmpl_text = ''Hi {first name}'', manual_only = False\<rparr>]
        [''jane@acme.com'' \<mapsto> ''gone''] (\<lambda>s. (s, [])) True is_generate_true
        (\<lambda>e. CHR ''@'' \<in> set e))
     = [Some ''t1''] \<and>
   generate_emails
        [[(''name'', ''Jane Doe''), (''firm'', ''Acme''), (''email'', ''Jane@Acme.com'')]]
        [''name'', ''firm'', ''email'']
        [\<lparr>tmpl_id = ''t1'', tmpl_name = ''T1'', tmpl_text = ''Hi {first name}'', manual_only = False\<rparr>]
        [''jane@acme.com'' \<mapsto> ''gone''] (\<lambda>s. (s, [])) is_generate_true
        (\<lambda>e. CHR ''@'' \<in> set e) ''Hello'' None True (\<lambda>d. True)
     = Inr (1, [])"
  by code_simp

text \<open>
  Claim C1, amended. A stale override is ignored and the recipient is handled as one without
  override; preview and generation are what they are with the entry removed from the map.
  \<open>choose_template_for_row\<close> returns the next template of the rotation of the row's firm
  with \<open>is_manual = False\<close> and advances the firm's counter, the preview entry of an
  eligible row shows that template's name and id, and the recipient is included in the
  generation: alone in a pass (eligible, with a non-empty normalised email, template ids
  non-empty and distinct, the sink accepting) it receives one draft, from the first rotatable
  template. Only when no rotatable template exists the result is \<open>(None, False)\<close>, the
  entry shows the dash and no template id, and no draft is generated.
\<close>

theorem stale_override_falls_to_rotation:
  assumes "ov (row_email_norm hs pn r) = Some tid"
    and "template_by_id ts tid = None"
    and "rot = rotatable_templates ts"
    and "k = nat (count_of fc (row_firm hs pn r) mod int (length rot))"
    and "ov' = ov(row_email_norm hs pn r := None)"
    and "d = \<lparr> to = row_email hs pn r,
               subject = resolve_text (PlaceholderResolver hs r pn) subject_template,
               body = wrap_in_html (resolve_text (PlaceholderResolver hs r pn) (tmpl_text (rot ! 0))),
               resume_path = resume \<rparr>"
  shows "choose_template_for_row r hs ts ov fc pn = choose_template_for_row r hs ts Map.empty fc pn \<and>
         choose_template_for_row r hs ts ov fc pn =
           (if rot = [] then ((None, False), fc)
            else ((Some (rot ! k), False),
                  fc(row_firm hs pn r \<mapsto> count_of fc (row_firm hs pn r) + 1))) \<and>
         (row_eligible hs pn g v r \<longrightarrow>
            map (\<lambda>e. (template_name e, template_id e, is_manual e))
                (fst (preview_loop hs ts ov pn only g v [r] fc)) =
              [if rot = [] then (no_template_name, None, False)
               else (tmpl_name (rot ! k), Some (tmpl_id (rot ! k)), False)]) \<and>
         build_preview_rows rows hs ts ov pn only g v = build_preview_rows rows hs ts ov' pn only g v \<and>
         generate_emails rows hs ts ov pn g v subject_template resume dry_run sink =
           generate_emails rows hs ts ov' pn g v subject_template resume dry_run sink \<and>
         (rot = [] \<longrightarrow>
            generate_emails [r] hs ts ov pn g v subject_template resume dry_run sink = Inr (0, [])) \<and>
         (rot \<noteq> [] \<and> row_eligible hs pn g v r \<and> row_email_norm hs pn r \<noteq> [] \<and>
          tmpl_id (rot ! 0) \<noteq> [] \<and> distinct (map tmpl_id ts) \<and> (\<not> dry_run \<longrightarrow> sink d) \<longrightarrow>
            generate_emails [r] hs ts ov pn g v subject_template resume dry_run sink =
              Inr (1, if dry_run then [] else [d]))"
proof -
  have o: "override_of hs pn ts ov r = None"
    using assms(1,2) by (simp add: override_of_def)
  have o': "override_of hs pn ts Map.empty r = None"
    by (simp add: override_of_def)
  have c123: "choose_template_for_row r hs ts ov fc pn = choose_template_for_row r hs ts Map.empty fc pn \<and>
         choose_template_for_row r hs ts ov fc pn =
           (if rot = [] then ((None, False), fc)
            else ((Some (rot ! k), False),
                  fc(row_firm hs pn r \<mapsto> count_of fc (row_firm hs pn r) + 1))) \<and>
         (row_eligible hs pn g v r \<longrightarrow>
            map (\<lambda>e. (template_name e, template_id e, is_manual e))
                (fst (preview_loop hs ts ov pn only g v [r] fc)) =
              [if rot = [] then (no_template_name, None, False)
               else (tmpl_name (rot ! k), Some (tmpl_id (rot ! k)), False)])"
    using assms(3,4)
    by (simp add: choose_template_for_row_eq o o' preview_loop_Cons row_entry_def row_choice_def)
  have c4: "build_preview_rows rows' hs ts ov pn only' g v = build_preview_rows rows' hs ts ov' pn only' g v"
    for rows' only'
    unfolding build_preview_rows_def assms(5)
    by (simp only: preview_loop_prune[where ov = ov and e = "row_email_norm hs pn r", OF assms(1,2)])
  have c5: "generate_emails rows hs ts ov pn g v subject_template resume dry_run sink =
           generate_emails rows hs ts ov' pn g v subject_template resume dry_run sink"
    unfolding generate_emails_def by (simp only: c4)
  have c6: "generate_emails [r] hs ts ov pn g v subject_template resume dry_run sink = Inr (0, [])"
    if "rot = []"
  proof (cases "row_eligible hs pn g v r")
    case False
    then have "build_preview_rows [r] hs ts ov pn True g v = []"
      by (simp add: build_preview_rows_def preview_loop_skip)
    then show ?thesis
      by (simp add: generate_emails_def)
  next
    case True
    with that assms(3) have "build_preview_rows [r] hs ts ov pn True g v =
        [row_entry hs ts ov pn g v r Map.empty]"
      and "template_id (row_entry hs ts ov pn g v r Map.empty) = None"
      by (simp_all add: build_preview_rows_def preview_loop_keep row_entry_def row_choice_def
          choose_template_for_row_eq o)
    then show ?thesis
      by (simp add: generate_emails_def generate_loop_skip)
  qed
  have c7: "generate_emails [r] hs ts ov pn g v subject_template resume dry_run sink =
              Inr (1, if dry_run then [] else [d])"
    if h: "rot \<noteq> [] \<and> row_eligible hs pn g v r \<and> row_email_norm hs pn r \<noteq> [] \<and>
          tmpl_id (rot ! 0) \<noteq> [] \<and> distinct (map tmpl_id ts) \<and> (\<not> dry_run \<longrightarrow> sink d)"
  proof -
    define p where "p = row_entry hs ts ov pn g v r Map.empty"
    have ch: "fst (row_choice hs ts ov pn g v r Map.empty) = (Some (rot ! 0), False)"
      using h assms(3) by (simp add: row_choice_def choose_template_for_row_eq o count_of_def)
    have pre: "build_preview_rows [r] hs ts ov pn True g v = [p]"
      using h by (simp add: build_preview_rows_def preview_loop_keep p_def)
    have tid: "template_id p = Some (tmpl_id (rot ! 0))"
      by (simp add: p_def row_entry_def ch)
    have en: "email_norm p = row_email_norm hs pn r" and em: "email p = row_email hs pn r"
      by (simp_all add: p_def row_entry_def split_beta)
    have e1: "email_norm p \<noteq> []"
      using h en by simp
    have e2: "email_norm p = strip (lower (email p))"
      by (simp add: en em row_email_norm_def)
    have rb: "build_rows_by_email [r] hs pn (email_norm p) = Some r"
      using h by (simp add: en build_rows_by_email_single)
    have rne: "r \<noteq> []"
      using h row_email_norm_Nil[of hs pn] by auto
    have "rot ! 0 \<in> set rot"
      using h by simp
    then have "rot ! 0 \<in> set ts"
      by (simp add: assms(3) rotatable_templates_def)
    then have tp: "templates_by_id ts (tmpl_id (rot ! 0)) = Some (rot ! 0)"
      using h by (simp add: templates_by_id_distinct template_by_id_distinct_self)
    have dd: "d = \<lparr> to = email p,
               subject = resolve_text (PlaceholderResolver hs r pn) subject_template,
               body = wrap_in_html (resolve_text (PlaceholderResolver hs r pn) (tmpl_text (rot ! 0))),
               resume_path = resume \<rparr>"
      by (simp add: assms(6) em)
    have hh: "tmpl_id (rot ! 0) \<noteq> []"
      using h by simp
    have "generate_loop hs pn (build_rows_by_email [r] hs pn) (templates_by_id ts) subject_template
            resume dry_run sink [p] 0 [] =
          (if dry_run then generate_loop hs pn (build_rows_by_email [r] hs pn) (templates_by_id ts)
                             subject_template resume dry_run sink [] (0 + 1) []
           else if sink d then generate_loop hs pn (build_rows_by_email [r] hs pn) (templates_by_id ts)
                             subject_template resume dry_run sink [] (0 + 1) ([] @ [d])
           else Inl (SinkFailed d))"
      by (rule generate_loop_draft[where rbe = "build_rows_by_email [r] hs pn"
            and tpls = "templates_by_id ts", OF e1 e2 tid hh rb rne tp dd])
    then show ?thesis
      using h by (simp add: generate_emails_def pre generate_loop_Nil)
  qed
  show ?thesis
    using c123 c4 c5 c6 c7 by blast
qed

theorem stale_override_falls_to_rotation_witness:
  "choose_template_for_row
          [(''name'', ''Jane Doe''), (''firm'', ''Acme''), (''email'', ''Jane@Acme.com'')]
          [''name'', ''firm'', ''email'']
          [\<lparr>tmpl_id = ''t1'', tmpl_name = ''T1'', tmpl_text = ''Hi {first name}'', manual_only = False\<rparr>]
          [''jane@acme.com'' \<mapsto> ''gone''] Map.empty (\<lambda>s. (s, []))
     = ((Some \<lparr>tmpl_id = ''t1'', tmpl_name = ''T1'', tmpl_text = ''Hi {first name}'', manual_only = False\<rparr>,
         False), [''Acme'' \<mapsto> 1]) \<and>
   generate_emails
          [[(''name'', ''Jane Doe''), (''firm'', ''Acme''), (''email'', ''Jane@Acme.com'')]]
          [''name'', ''firm'', ''email'']
          [\<lparr>tmpl_id = ''t1'', tmpl_name = ''T1'', tmpl_text = ''Hi {first name}'', manual_only = False\<rparr>]
          [''jane@acme.com'' \<mapsto> ''gone''] (\<lambda>s. (s, [])) is_generate_true (\<lambda>e. CHR ''@'' \<in> set e)
          ''Hello'' None False (\<lambda>d. True)
     = Inr (1, [\<lparr>to = ''Jane@Acme.com'', subject = ''Hello'', body = wrap_in_html ''Hi Jane Doe'',
                 resume_path = None\<rparr>])"
proof -
  define r :: row where
    "r = [(''name'', ''Jane Doe''), (''firm'', ''Acme''), (''email'', ''Jane@Acme.com'')]"
  define hs where "hs = [''name'', ''firm'', ''email'']"
  define pn :: parse_name_fn where "pn = (\<lambda>s. (s, []))"
  define t1 where "t1 =
    \<lparr>tmpl_id = ''t1'', tmpl_name = ''T1'', tmpl_text = ''Hi {first name}'', manual_only = False\<rparr>"
  define v :: "string \<Rightarrow> bool" where "v = (\<lambda>e. CHR ''@'' \<in> set e)"
  define ov :: overrides where "ov = [''jane@acme.com'' \<mapsto> ''gone'']"
  have e: "row_email_norm hs pn r = ''jane@acme.com''"
    unfolding r_def hs_def pn_def by code_simp
  have em: "row_email hs pn r = ''Jane@Acme.com''"
    unfolding r_def hs_def pn_def by code_simp
  have f: "row_firm hs pn r = ''Acme''"
    unfolding r_def hs_def pn_def by code_simp
  have el: "row_eligible hs pn is_generate_true v r"
    unfolding r_def hs_def pn_def v_def by code_simp
  have s1: "resolve_text (PlaceholderResolver hs r pn) ''Hello'' = ''Hello''"
    unfolding r_def hs_def pn_def by code_simp
  have s2: "resolve_text (PlaceholderResolver hs r pn) ''Hi {first name}'' = ''Hi Jane Doe''"
    unfolding r_def hs_def pn_def by code_simp
  have h1: "ov (row_email_norm hs pn r) = Some ''gone''"
    unfolding e by (simp add: ov_def)
  have h2: "template_by_id [t1] ''gone'' = None"
    by (simp add: template_by_id_def t1_def)
  have rot: "rotatable_templates [t1] = [t1]"
    by (simp add: rotatable_templates_def t1_def)
  have t1f: "tmpl_id t1 = ''t1''" "tmpl_text t1 = ''Hi {first name}''"
    by (simp_all add: t1_def)
  note main = stale_override_falls_to_rotation[where ov = ov and fc = Map.empty and g = is_generate_true and v = v
      and subject_template = "''Hello''" and resume = None and dry_run = False
      and sink = "\<lambda>d. True", OF h1 h2 refl refl refl refl]
  have a: "choose_template_for_row r hs [t1] ov Map.empty pn = ((Some t1, False), [''Acme'' \<mapsto> 1])"
    using main[THEN conjunct2, THEN conjunct1]
    by (simp add: f rot count_of_def)
  have b: "generate_emails [r] hs [t1] ov pn is_generate_true v ''Hello'' None False (\<lambda>d. True) =
      Inr (1, [\<lparr>to = ''Jane@Acme.com'', subject = ''Hello'', body = wrap_in_html ''Hi Jane Doe'',
                 resume_path = None\<rparr>])"
    using main[THEN conjunct2, THEN conjunct2, THEN conjunct2, THEN conjunct2, THEN conjunct2,
        THEN conjunct2] el
    by (simp add: rot e em s1 s2 t1f)
  show ?thesis
    using a b unfolding r_def hs_def pn_def t1_def v_def ov_def by simp
qed

section \<open>The eligibility predicate\<close>

lemma lower_keys_fold:
  "fold (\<lambda>k m. m(lower k \<mapsto> k)) ks m0 key =
     (case filter (\<lambda>k. lower k = key) ks of [] \<Rightarrow> m0 key | x # xs \<Rightarrow> Some (last (x # xs)))"
proof (induction ks arbitrary: m0)
  case Nil
  then show ?case by simp
next
  case (Cons k ks)
  then show ?case by (auto split: list.splits)
qed

lemma lower_keys_eq:
  "lower_keys r key =
     (case filter (\<lambda>k. lower k = key) (map fst r) of [] \<Rightarrow> None | x # xs \<Rightarrow> Some (last (x # xs)))"
  by (simp add: lower_keys_def lower_keys_fold)

text \<open>
  Claim C9. A row with no column whose name is \<open>generate\<close> or \<open>gen\<close> up to case is
  generate-enabled. Otherwise the column \<open>generate\<close> decides if there is one, else the column
  \<open>gen\<close> (among columns equal up to case, the last of the row): the row is eligible exactly
  when the trimmed, lowercased cell is one of \<open>1\<close>, \<open>true\<close>, \<open>yes\<close>, \<open>y\<close>.
\<close>

theorem is_generate_true_columns:
  "((\<forall>k \<in> set (map fst r). lower k \<noteq> ''generate'' \<and> lower k \<noteq> ''gen'') \<longrightarrow> is_generate_true r) \<and>
   is_generate_true r =
     (case filter (\<lambda>k. lower k = ''generate'') (map fst r) of
        k # ks \<Rightarrow> parse_bool (row_get r (last (k # ks)))
      | [] \<Rightarrow>
         (case filter (\<lambda>k. lower k = ''gen'') (map fst r) of
            k # ks \<Rightarrow> parse_bool (row_get r (last (k # ks)))
          | [] \<Rightarrow> True)) \<and>
   (\<forall>val. parse_bool val \<longleftrightarrow> lower (strip val) \<in> {''1'', ''true'', ''yes'', ''y''})"
proof -
  have eq: "is_generate_true r =
     (case filter (\<lambda>k. lower k = ''generate'') (map fst r) of
        k # ks \<Rightarrow> parse_bool (row_get r (last (k # ks)))
      | [] \<Rightarrow>
         (case filter (\<lambda>k. lower k = ''gen'') (map fst r) of
            k # ks \<Rightarrow> parse_bool (row_get r (last (k # ks)))
          | [] \<Rightarrow> True))"
    unfolding is_generate_true_def Let_def lower_keys_eq
    by (simp split: list.splits)
  have none: "(\<forall>k \<in> set (map fst r). lower k \<noteq> ''generate'' \<and> lower k \<noteq> ''gen'') \<longrightarrow> is_generate_true r"
  proof
    assume a: "\<forall>k \<in> set (map fst r). lower k \<noteq> ''generate'' \<and> lower k \<noteq> ''gen''"
    then have "filter (\<lambda>k. lower k = ''generate'') (map fst r) = []"
      and "filter (\<lambda>k. lower k = ''gen'') (map fst r) = []"
      by (simp_all add: filter_empty_conv)
    then show "is_generate_true r"
      unfolding eq by simp
  qed
  show ?thesis
    using eq none by (simp add: parse_bool_def)
qed

theorem is_generate_true_columns_witness:
  "is_generate_true [(''name'', ''Jane Doe''), (''email'', ''jane@acme.com'')] \<and>
   is_generate_true [(''Generate'', '' YES ''), (''gen'', ''no'')] \<and>
   \<not> is_generate_true [(''name'', ''Bob Lee''), (''GEN'', ''0'')]"
  using is_generate_true_columns [of "[(''name'', ''Jane Doe''), (''email'', ''jane@acme.com'')]"]
    is_generate_true_columns [of "[(''Generate'', '' YES ''), (''gen'', ''no'')]"]
    is_generate_true_columns [of "[(''name'', ''Bob Lee''), (''GEN'', ''0'')]"]
  by (simp add: lower_def lower_char_def row_get_def strip_def is_space_def)

section \<open>The HTML body\<close>

text \<open>
  Claim C8. The HTML wrapping replaces double spaces and newlines by break markers, removes
  leading and trailing break markers only, and leaves every other character of the body
  unchanged. The code does not do this: \<open>lstrip("<br>")\<close> and \<open>rstrip("<br>")\<close> remove
  characters of the set \<open><\<close>, \<open>b\<close>, \<open>r\<close>, \<open>>\<close>, so the body \<open>Best, Arthur\<close> loses its last
  letter.
\<close>

theorem wrap_in_html_drops_body_letter:
  "wrap_in_html ''Best, Arthur'' =
     ''<html><body style='' @ [CHR 0x27] @ ''margin:0;padding:0;font-family:Arial,sans-serif;''
       @ [CHR 0x27] @ ''>Best, Arthu</body></html>''"
  by (simp add: wrap_in_html_def strip_def is_space_def replace_def lstrip_chars_def
      rstrip_chars_def)

end
